theory Spec2Isabelle
  imports Main "HOL-Library.Word" "HOL-Library.Sublist"
begin

section \<open>utils.hpp: strings and the scoped function logger\<close>

text \<open>
  The C++ exceptions the modelled code can raise: \<open>std::string::substr\<close> throws
  \<open>std::out_of_range\<close> when its position lies beyond the end of the string, and
  \<open>std::optional::value\<close> throws \<open>std::bad_optional_access\<close> on an empty optional.
\<close>

datatype exception = out_of_range | bad_optional_access

text \<open>
  \<open>size_t\<close> is taken as an unsigned 64-bit integer; \<open>std::string::npos\<close> is its
  largest value, so \<open>npos + 1\<close> wraps to \<open>0\<close>.
\<close>

type_synonym size_t = "64 word"

definition npos :: size_t where
  "npos = - 1"

text \<open>
  The index of the first and of the last position at which \<open>pat\<close> starts in a string,
  as \<open>std::string::find\<close> and \<open>std::string::rfind\<close> search for it.
\<close>

fun find_first :: "string \<Rightarrow> string \<Rightarrow> nat option" where
  "find_first pat [] = (if pat = [] then Some 0 else None)"
| "find_first pat (c # cs) =
     (if prefix pat (c # cs) then Some 0 else map_option Suc (find_first pat cs))"

fun find_last :: "string \<Rightarrow> string \<Rightarrow> nat option" where
  "find_last pat [] = (if pat = [] then Some 0 else None)"
| "find_last pat (c # cs) =
     (case find_last pat cs of
        Some i \<Rightarrow> Some (Suc i)
      | None \<Rightarrow> (if prefix pat (c # cs) then Some 0 else None))"

definition string_find :: "string \<Rightarrow> string \<Rightarrow> size_t" where
  "string_find s pat = (case find_first pat s of None \<Rightarrow> npos | Some i \<Rightarrow> of_nat i)"

definition string_rfind :: "string \<Rightarrow> string \<Rightarrow> size_t" where
  "string_rfind s pat = (case find_last pat s of None \<Rightarrow> npos | Some i \<Rightarrow> of_nat i)"

text \<open>
  \<open>s.substr(pos, n)\<close>: the characters from \<open>pos\<close> on, at most \<open>n\<close> of them and at
  most as many as the string has left; \<open>pos > s.size()\<close> throws.
\<close>

definition substr :: "string \<Rightarrow> size_t \<Rightarrow> size_t \<Rightarrow> exception + string" where
  "substr s pos n =
     (if length s < unat pos then Inl out_of_range
      else Inr (take (min (unat n) (length s - unat pos)) (drop (unat pos) s)))"

definition method_name :: "string \<Rightarrow> exception + string" where
  "method_name prettyFunction =
     (let colons = string_find prettyFunction ''::'' in
      (case substr prettyFunction 0 colons of
         Inl e \<Rightarrow> Inl e
       | Inr head \<Rightarrow>
           (let begin = string_rfind head '' '' + 1;
                end = string_rfind prettyFunction ''('' - begin
            in (case substr prettyFunction begin end of
                  Inl e \<Rightarrow> Inl e
                | Inr name \<Rightarrow> Inr (name @ ''()'')))))"

section \<open>The state of the process and its environment\<close>

text \<open>
  \<open>Manager::Meta\<close> and \<open>Manager::Service\<close>. The \<open>handle\<close> is the shared pointer made
  by \<open>std::make_shared<TestServiceStubImpl>()\<close>: the stub object has no data members,
  so it is identified by the number of the allocation that made it.
\<close>

record Meta =
  domain :: string
  "instance" :: string
  interface :: string
  connection :: string

record Service =
  meta :: Meta
  handle :: nat

text \<open>
  A proxy built by \<open>runtime->buildProxy<TestServiceProxy>(domain, instance, connection)\<close>
  is identified by the three strings it was built from.
\<close>

datatype Proxy = Proxy string string string

text \<open>
  Every call the Manager makes on the CommonAPI runtime, on a proxy, or on
  \<open>std::this_thread\<close> is recorded as an event, with its arguments and, where it has
  one, its result.  A recorded call also keeps whether \<open>running_service.has_value()\<close>
  held in the Manager at the moment of the call.
\<close>

datatype Event =
    SetProperty string string
  | RuntimeGet
  | RegisterService string string nat string bool
  | UnregisterService string string string bool
  | BuildProxy string string string
  | IsAvailable Proxy bool
  | SleepFor nat

datatype Call = Call (event: Event) (slot_has_value: bool)

text \<open>What \<open>COMMONAPI_INFO\<close> is given to print: a string, or an unsigned 64-bit number.\<close>

datatype LogArg = Text string | UInt64 "64 word"

text \<open>
  The state threaded through the model: the Manager's only data member
  \<open>running_service\<close>, the state \<open>'r\<close> of the external runtime (of which nothing is
  assumed), the calls made so far, the messages logged so far, and the number of stub
  objects allocated so far.
\<close>

record 'r State =
  running_service :: "Service option"
  runtime :: 'r
  trace :: "Call list"
  logged :: "LogArg list"
  stubs_made :: nat

text \<open>
  What the program takes from outside the repository: the operations of the CommonAPI
  runtime as functions on the runtime's state (a boolean-returning operation gives its
  answer and the next state), the passing of time in \<open>sleep_for\<close> (milliseconds), and
  the compiler's \<open>__PRETTY_FUNCTION__\<close> for each function, looked up by the
  function's name.
\<close>

record 'r Environment =
  setProperty :: "string \<Rightarrow> string \<Rightarrow> 'r \<Rightarrow> 'r"
  Runtime_get :: "'r \<Rightarrow> 'r"
  registerService :: "string \<Rightarrow> string \<Rightarrow> nat \<Rightarrow> string \<Rightarrow> 'r \<Rightarrow> bool \<times> 'r"
  unregisterService :: "string \<Rightarrow> string \<Rightarrow> string \<Rightarrow> 'r \<Rightarrow> bool \<times> 'r"
  buildProxy :: "string \<Rightarrow> string \<Rightarrow> string \<Rightarrow> 'r \<Rightarrow> 'r"
  isAvailable :: "Proxy \<Rightarrow> 'r \<Rightarrow> bool \<times> 'r"
  sleep_for :: "nat \<Rightarrow> 'r \<Rightarrow> 'r"
  PRETTY_FUNCTION :: "string \<Rightarrow> string"

text \<open>
  The loops of the Manager have no bound, so a call may never return. Each loop is
  given a bound \<open>n\<close> on its iterations: \<open>Returned s\<close> is a call that came back in state
  \<open>s\<close>, \<open>Blocked s\<close> is a run that has reached state \<open>s\<close> at the head of a loop after
  \<open>n\<close> iterations and is still going, and \<open>Threw e s\<close> is an exception leaving the
  function. A call returns iff some bound gives \<open>Returned\<close>.
\<close>

datatype 's outcome = Returned 's | Blocked 's | Threw exception 's

fun then_do :: "'s outcome \<Rightarrow> ('s \<Rightarrow> 's outcome) \<Rightarrow> 's outcome" where
  "then_do (Returned s) f = f s"
| "then_do (Blocked s) f = Blocked s"
| "then_do (Threw e s) f = Threw e s"

fun state_of :: "'s outcome \<Rightarrow> 's" where
  "state_of (Returned s) = s"
| "state_of (Blocked s) = s"
| "state_of (Threw e s) = s"

fun returned :: "'s outcome \<Rightarrow> bool" where
  "returned (Returned s) = True"
| "returned (Blocked s) = False"
| "returned (Threw e s) = False"

definition has_value :: "'a option \<Rightarrow> bool" where
  "has_value x = (x \<noteq> None)"

definition record_call :: "Event \<Rightarrow> 'r State \<Rightarrow> 'r State" where
  "record_call e s = s\<lparr>trace := trace s @ [Call e (has_value (running_service s))]\<rparr>"

definition LOG :: "LogArg \<Rightarrow> 'r State \<Rightarrow> 'r State" where
  "LOG message s = s\<lparr>logged := logged s @ [message]\<rparr>"

text \<open>
  \<open>ScopedFunctionLogger\<close>: the constructor logs ENTER, the destructor logs EXIT. The
  macro \<open>LOG_FUNCTION_CALL()\<close> declares one on the first line of a function, named by
  \<open>method_name(__PRETTY_FUNCTION__)\<close>; its destructor runs when the function is left,
  by return or by exception, and not while the function is still running.
\<close>

definition ScopedFunctionLogger :: "string \<Rightarrow> 'r State \<Rightarrow> 'r State" where
  "ScopedFunctionLogger method_name_to_log s =
     LOG (Text (''['' @ method_name_to_log @ ''] ENTER'')) s"

definition ScopedFunctionLogger_dtor :: "string \<Rightarrow> 'r State \<Rightarrow> 'r State" where
  "ScopedFunctionLogger_dtor method_name_to_log s =
     LOG (Text (''['' @ method_name_to_log @ ''] EXIT'')) s"

definition LOG_FUNCTION_CALL ::
  "'r Environment \<Rightarrow> string \<Rightarrow> ('r State \<Rightarrow> 'r State outcome) \<Rightarrow> 'r State \<Rightarrow> 'r State outcome"
where
  "LOG_FUNCTION_CALL env fname body s =
     (case method_name (PRETTY_FUNCTION env fname) of
        Inl e \<Rightarrow> Threw e s
      | Inr name \<Rightarrow>
          (case body (ScopedFunctionLogger name s) of
             Returned s' \<Rightarrow> Returned (ScopedFunctionLogger_dtor name s')
           | Blocked s' \<Rightarrow> Blocked s'
           | Threw e s' \<Rightarrow> Threw e (ScopedFunctionLogger_dtor name s')))"

text \<open>The calls on the environment, each recorded in the trace.\<close>

definition call_setProperty :: "'r Environment \<Rightarrow> string \<Rightarrow> string \<Rightarrow> 'r State \<Rightarrow> 'r State" where
  "call_setProperty env name val s =
     record_call (SetProperty name val) (s\<lparr>runtime := setProperty env name val (runtime s)\<rparr>)"

definition call_Runtime_get :: "'r Environment \<Rightarrow> 'r State \<Rightarrow> 'r State" where
  "call_Runtime_get env s =
     record_call RuntimeGet (s\<lparr>runtime := Runtime_get env (runtime s)\<rparr>)"

definition call_registerService ::
  "'r Environment \<Rightarrow> string \<Rightarrow> string \<Rightarrow> nat \<Rightarrow> string \<Rightarrow> 'r State \<Rightarrow> bool \<times> 'r State"
where
  "call_registerService env d i h c s =
     (case registerService env d i h c (runtime s) of
        (ok, r) \<Rightarrow> (ok, record_call (RegisterService d i h c ok) (s\<lparr>runtime := r\<rparr>)))"

definition call_unregisterService ::
  "'r Environment \<Rightarrow> string \<Rightarrow> string \<Rightarrow> string \<Rightarrow> 'r State \<Rightarrow> bool \<times> 'r State"
where
  "call_unregisterService env d f i s =
     (case unregisterService env d f i (runtime s) of
        (ok, r) \<Rightarrow> (ok, record_call (UnregisterService d f i ok) (s\<lparr>runtime := r\<rparr>)))"

definition call_buildProxy ::
  "'r Environment \<Rightarrow> string \<Rightarrow> string \<Rightarrow> string \<Rightarrow> 'r State \<Rightarrow> Proxy \<times> 'r State"
where
  "call_buildProxy env d i c s =
     (Proxy d i c, record_call (BuildProxy d i c) (s\<lparr>runtime := buildProxy env d i c (runtime s)\<rparr>))"

definition call_isAvailable :: "'r Environment \<Rightarrow> Proxy \<Rightarrow> 'r State \<Rightarrow> bool \<times> 'r State" where
  "call_isAvailable env proxy s =
     (case isAvailable env proxy (runtime s) of
        (a, r) \<Rightarrow> (a, record_call (IsAvailable proxy a) (s\<lparr>runtime := r\<rparr>)))"

section \<open>manager.hpp\<close>

definition SOMEIP_GEN_LIBRARY_NAME_BASE :: string where
  "SOMEIP_GEN_LIBRARY_NAME_BASE = ''someip-test-service''"

text \<open>\<open>RETRY_TIMEOUT\<close>, in milliseconds.\<close>

definition RETRY_TIMEOUT :: nat where
  "RETRY_TIMEOUT = 100"

definition SERVICE_DOMAIN :: string where
  "SERVICE_DOMAIN = ''local''"

definition SERVICE_INSTANCE :: string where
  "SERVICE_INSTANCE = ''test.TestService''"

definition SERVICE_INTERFACE :: string where
  "SERVICE_INTERFACE = ''test.TestService:v0_1''"

definition SERVICE_CONNECTION :: string where
  "SERVICE_CONNECTION = ''test-service''"

definition sleep :: "'r Environment \<Rightarrow> 'r State \<Rightarrow> 'r State" where
  "sleep env s =
     record_call (SleepFor RETRY_TIMEOUT)
       (s\<lparr>runtime := sleep_for env RETRY_TIMEOUT (runtime s)\<rparr>)"

definition configure_common_api_runtime :: "'r Environment \<Rightarrow> 'r State \<Rightarrow> 'r State" where
  "configure_common_api_runtime env s =
     call_Runtime_get env (call_setProperty env ''LibraryBase'' SOMEIP_GEN_LIBRARY_NAME_BASE s)"

text \<open>
  The constructor \<open>Manager()\<close>, run once when \<open>Manager::instance()\<close> is first called,
  in a process whose runtime is in state \<open>r\<close>.
\<close>

definition Manager :: "'r Environment \<Rightarrow> 'r \<Rightarrow> 'r State" where
  "Manager env r =
     configure_common_api_runtime env
       \<lparr>running_service = None, runtime = r, trace = [], logged = [], stubs_made = 0\<rparr>"

definition create_service :: "'r State \<Rightarrow> Service \<times> 'r State" where
  "create_service s =
     (let meta = \<lparr>domain = SERVICE_DOMAIN, instance = SERVICE_INSTANCE,
                  interface = SERVICE_INTERFACE, connection = SERVICE_CONNECTION\<rparr>;
          handle = stubs_made s
      in (\<lparr>meta = meta, handle = handle\<rparr>, s\<lparr>stubs_made := Suc (stubs_made s)\<rparr>))"

text \<open>
  \<open>while (!runtime->registerService(domain, instance, service.handle, connection))
  { LOG(...); sleep(); }\<close>, at most \<open>n\<close> evaluations of the condition.
\<close>

fun register_loop :: "nat \<Rightarrow> 'r Environment \<Rightarrow> Service \<Rightarrow> 'r State \<Rightarrow> 'r State outcome" where
  "register_loop 0 env service s = Blocked s"
| "register_loop (Suc n) env service s =
     (case call_registerService env (domain (meta service)) (instance (meta service))
             (handle service) (connection (meta service)) s of
        (ok, s1) \<Rightarrow>
          (if \<not> ok
           then register_loop n env service
                  (sleep env (LOG (Text ''Couldn't register service, trying again...'') s1))
           else Returned s1))"

definition register_service :: "'r Environment \<Rightarrow> nat \<Rightarrow> Service \<Rightarrow> 'r State \<Rightarrow> 'r State outcome" where
  "register_service env n service s =
     LOG_FUNCTION_CALL env ''register_service''
       (\<lambda>s. register_loop n env service (call_Runtime_get env s)) s"

fun unregister_loop :: "nat \<Rightarrow> 'r Environment \<Rightarrow> Service \<Rightarrow> 'r State \<Rightarrow> 'r State outcome" where
  "unregister_loop 0 env service s = Blocked s"
| "unregister_loop (Suc n) env service s =
     (case call_unregisterService env (domain (meta service)) (interface (meta service))
             (instance (meta service)) s of
        (ok, s1) \<Rightarrow>
          (if \<not> ok
           then unregister_loop n env service
                  (sleep env (LOG (Text ''Couldn't unregister service, trying again...'') s1))
           else Returned s1))"

definition unregister_service :: "'r Environment \<Rightarrow> nat \<Rightarrow> Service \<Rightarrow> 'r State \<Rightarrow> 'r State outcome" where
  "unregister_service env n service s =
     LOG_FUNCTION_CALL env ''unregister_service''
       (\<lambda>s. unregister_loop n env service (call_Runtime_get env s)) s"

text \<open>\<open>while (proxy->isAvailable() != to_be_available) { sleep(); }\<close>\<close>

fun wait_loop :: "nat \<Rightarrow> 'r Environment \<Rightarrow> Proxy \<Rightarrow> bool \<Rightarrow> 'r State \<Rightarrow> 'r State outcome" where
  "wait_loop 0 env proxy to_be_available s = Blocked s"
| "wait_loop (Suc n) env proxy to_be_available s =
     (case call_isAvailable env proxy s of
        (available, s1) \<Rightarrow>
          (if available \<noteq> to_be_available
           then wait_loop n env proxy to_be_available (sleep env s1)
           else Returned s1))"

definition wait_service ::
  "'r Environment \<Rightarrow> nat \<Rightarrow> Service \<Rightarrow> bool \<Rightarrow> 'r State \<Rightarrow> 'r State outcome"
where
  "wait_service env n service to_be_available s =
     LOG_FUNCTION_CALL env ''wait_service''
       (\<lambda>s. (case call_buildProxy env (domain (meta service)) (instance (meta service))
                     (connection (meta service)) (call_Runtime_get env s) of
                (proxy, s1) \<Rightarrow> wait_loop n env proxy to_be_available s1)) s"

definition launch_test_service :: "'r Environment \<Rightarrow> nat \<Rightarrow> 'r State \<Rightarrow> 'r State outcome" where
  "launch_test_service env n s =
     LOG_FUNCTION_CALL env ''launch_test_service''
       (\<lambda>s. if \<not> has_value (running_service s)
            then (case create_service s of
                    (service, s1) \<Rightarrow>
                      then_do (register_service env n service s1)
                        (\<lambda>s2. then_do (wait_service env n service True s2)
                           (\<lambda>s3. Returned (s3\<lparr>running_service := Some service\<rparr>))))
            else Returned
                   (LOG (Text ''Ignoring an attempt to launch - service is already launched.'') s))
       s"

text \<open>
  \<open>running_service.value()\<close> is evaluated twice, for \<open>unregister_service\<close> and again
  for \<open>wait_service\<close>; on an empty optional it throws.
\<close>

definition optional_value :: "'r State \<Rightarrow> ('r State \<Rightarrow> Service \<Rightarrow> 'r State outcome) \<Rightarrow> 'r State outcome" where
  "optional_value s f =
     (case running_service s of
        None \<Rightarrow> Threw bad_optional_access s
      | Some service \<Rightarrow> f s service)"

definition terminate_test_service :: "'r Environment \<Rightarrow> nat \<Rightarrow> 'r State \<Rightarrow> 'r State outcome" where
  "terminate_test_service env n s =
     LOG_FUNCTION_CALL env ''terminate_test_service''
       (\<lambda>s. if has_value (running_service s)
            then then_do (optional_value s (\<lambda>s service. unregister_service env n service s))
                   (\<lambda>s2. then_do
                            (optional_value s2 (\<lambda>s service. wait_service env n service False s))
                            (\<lambda>s3. Returned (s3\<lparr>running_service := None\<rparr>)))
            else Returned
                   (LOG (Text ''Ignoring an attempt to terminate - service hasn't been launched.'') s))
       s"

text \<open>The destructor \<open>~Manager()\<close>.\<close>

definition Manager_dtor :: "'r Environment \<Rightarrow> nat \<Rightarrow> 'r State \<Rightarrow> 'r State outcome" where
  "Manager_dtor env n s = terminate_test_service env n s"

text \<open>
  lib.cpp: the entry points \<open>launch\<close> and \<open>terminate\<close> lock
  \<open>test_service_manager_mutex\<close>, take \<open>Manager::instance()\<close> (constructed at its
  first use) and call \<open>launch_test_service\<close> or \<open>terminate_test_service\<close> on it. The
  model is of one thread of control: a run of an entry point is a run of the method on
  the constructed Manager.
\<close>

section \<open>service.hpp: the stub\<close>

text \<open>
  \<open>float\<close> and \<open>double\<close> are passed through and never computed with: they are left
  as unspecified types of values. The signed integers \<open>int8_t\<close> to \<open>int64_t\<close> are
  words of their width (read as two's complement by \<open>sint\<close>), as the unsigned ones are.
  \<open>CommonAPI::ClientId\<close> and the aggregate \<open>AllPrimitiveDataTypes\<close> are declared in
  generated code: they are the type parameters \<open>'c\<close> and \<open>'a\<close>. A reply callback
  (\<open>std::function<void(T)>\<close>) is any function that takes the value replied and acts
  on the state.
\<close>

typedecl float

typedecl double

definition test_bool ::
  "'r Environment \<Rightarrow> 'c \<Rightarrow> bool \<Rightarrow> (bool \<Rightarrow> 'r State \<Rightarrow> 'r State) \<Rightarrow> 'r State \<Rightarrow> 'r State outcome"
where
  "test_bool env client flag reply s =
     LOG_FUNCTION_CALL env ''test_bool'' (\<lambda>s. Returned (reply flag s)) s"

definition test_int8 ::
  "'r Environment \<Rightarrow> 'c \<Rightarrow> 8 word \<Rightarrow> (8 word \<Rightarrow> 'r State \<Rightarrow> 'r State) \<Rightarrow> 'r State \<Rightarrow> 'r State outcome"
where
  "test_int8 env client param reply s =
     LOG_FUNCTION_CALL env ''test_int8'' (\<lambda>s. Returned (reply param s)) s"

definition test_int16 ::
  "'r Environment \<Rightarrow> 'c \<Rightarrow> 16 word \<Rightarrow> (16 word \<Rightarrow> 'r State \<Rightarrow> 'r State) \<Rightarrow> 'r State \<Rightarrow> 'r State outcome"
where
  "test_int16 env client param reply s =
     LOG_FUNCTION_CALL env ''test_int16'' (\<lambda>s. Returned (reply param s)) s"

definition test_int32 ::
  "'r Environment \<Rightarrow> 'c \<Rightarrow> 32 word \<Rightarrow> (32 word \<Rightarrow> 'r State \<Rightarrow> 'r State) \<Rightarrow> 'r State \<Rightarrow> 'r State outcome"
where
  "test_int32 env client param reply s =
     LOG_FUNCTION_CALL env ''test_int32'' (\<lambda>s. Returned (reply param s)) s"

definition test_int64 ::
  "'r Environment \<Rightarrow> 'c \<Rightarrow> 64 word \<Rightarrow> (64 word \<Rightarrow> 'r State \<Rightarrow> 'r State) \<Rightarrow> 'r State \<Rightarrow> 'r State outcome"
where
  "test_int64 env client param reply s =
     LOG_FUNCTION_CALL env ''test_int64'' (\<lambda>s. Returned (reply param s)) s"

definition test_uint8 ::
  "'r Environment \<Rightarrow> 'c \<Rightarrow> 8 word \<Rightarrow> (8 word \<Rightarrow> 'r State \<Rightarrow> 'r State) \<Rightarrow> 'r State \<Rightarrow> 'r State outcome"
where
  "test_uint8 env client param reply s =
     LOG_FUNCTION_CALL env ''test_uint8'' (\<lambda>s. Returned (reply param s)) s"

definition test_uint16 ::
  "'r Environment \<Rightarrow> 'c \<Rightarrow> 16 word \<Rightarrow> (16 word \<Rightarrow> 'r State \<Rightarrow> 'r State) \<Rightarrow> 'r State \<Rightarrow> 'r State outcome"
where
  "test_uint16 env client param reply s =
     LOG_FUNCTION_CALL env ''test_uint16'' (\<lambda>s. Returned (reply param s)) s"

definition test_uint32 ::
  "'r Environment \<Rightarrow> 'c \<Rightarrow> 32 word \<Rightarrow> (32 word \<Rightarrow> 'r State \<Rightarrow> 'r State) \<Rightarrow> 'r State \<Rightarrow> 'r State outcome"
where
  "test_uint32 env client param reply s =
     LOG_FUNCTION_CALL env ''test_uint32'' (\<lambda>s. Returned (reply param s)) s"

definition test_uint64 ::
  "'r Environment \<Rightarrow> 'c \<Rightarrow> 64 word \<Rightarrow> (64 word \<Rightarrow> 'r State \<Rightarrow> 'r State) \<Rightarrow> 'r State \<Rightarrow> 'r State outcome"
where
  "test_uint64 env client param reply s =
     LOG_FUNCTION_CALL env ''test_uint64'' (\<lambda>s. Returned (reply param s)) s"

definition test_double ::
  "'r Environment \<Rightarrow> 'c \<Rightarrow> double \<Rightarrow> (double \<Rightarrow> 'r State \<Rightarrow> 'r State) \<Rightarrow> 'r State \<Rightarrow> 'r State outcome"
where
  "test_double env client param reply s =
     LOG_FUNCTION_CALL env ''test_double'' (\<lambda>s. Returned (reply param s)) s"

definition test_float ::
  "'r Environment \<Rightarrow> 'c \<Rightarrow> float \<Rightarrow> (float \<Rightarrow> 'r State \<Rightarrow> 'r State) \<Rightarrow> 'r State \<Rightarrow> 'r State outcome"
where
  "test_float env client param reply s =
     LOG_FUNCTION_CALL env ''test_float'' (\<lambda>s. Returned (reply param s)) s"

definition test_struct ::
  "'r Environment \<Rightarrow> 'c \<Rightarrow> 'a \<Rightarrow> ('a \<Rightarrow> 'r State \<Rightarrow> 'r State) \<Rightarrow> 'r State \<Rightarrow> 'r State outcome"
where
  "test_struct env client request reply s =
     LOG_FUNCTION_CALL env ''test_struct'' (\<lambda>s. Returned (reply request s)) s"

definition test_utf16le_dynamic_length_string ::
  "'r Environment \<Rightarrow> 'c \<Rightarrow> string \<Rightarrow> (string \<Rightarrow> 'r State \<Rightarrow> 'r State) \<Rightarrow> 'r State \<Rightarrow> 'r State outcome"
where
  "test_utf16le_dynamic_length_string env client param reply s =
     LOG_FUNCTION_CALL env ''test_utf16le_dynamic_length_string'' (\<lambda>s. Returned (reply param s)) s"

definition test_utf16be_dynamic_length_string ::
  "'r Environment \<Rightarrow> 'c \<Rightarrow> string \<Rightarrow> (string \<Rightarrow> 'r State \<Rightarrow> 'r State) \<Rightarrow> 'r State \<Rightarrow> 'r State outcome"
where
  "test_utf16be_dynamic_length_string env client param reply s =
     LOG_FUNCTION_CALL env ''test_utf16be_dynamic_length_string'' (\<lambda>s. Returned (reply param s)) s"

definition test_utf8_dynamic_length_string ::
  "'r Environment \<Rightarrow> 'c \<Rightarrow> string \<Rightarrow> (string \<Rightarrow> 'r State \<Rightarrow> 'r State) \<Rightarrow> 'r State \<Rightarrow> 'r State outcome"
where
  "test_utf8_dynamic_length_string env client param reply s =
     LOG_FUNCTION_CALL env ''test_utf8_dynamic_length_string'' (\<lambda>s. Returned (reply param s)) s"

definition test_utf16le_fixed_length_string ::
  "'r Environment \<Rightarrow> 'c \<Rightarrow> string \<Rightarrow> (string \<Rightarrow> 'r State \<Rightarrow> 'r State) \<Rightarrow> 'r State \<Rightarrow> 'r State outcome"
where
  "test_utf16le_fixed_length_string env client param reply s =
     LOG_FUNCTION_CALL env ''test_utf16le_fixed_length_string'' (\<lambda>s. Returned (reply param s)) s"

definition test_utf16be_fixed_length_string ::
  "'r Environment \<Rightarrow> 'c \<Rightarrow> string \<Rightarrow> (string \<Rightarrow> 'r State \<Rightarrow> 'r State) \<Rightarrow> 'r State \<Rightarrow> 'r State outcome"
where
  "test_utf16be_fixed_length_string env client param reply s =
     LOG_FUNCTION_CALL env ''test_utf16be_fixed_length_string'' (\<lambda>s. Returned (reply param s)) s"

definition test_utf8_fixed_length_string ::
  "'r Environment \<Rightarrow> 'c \<Rightarrow> string \<Rightarrow> (string \<Rightarrow> 'r State \<Rightarrow> 'r State) \<Rightarrow> 'r State \<Rightarrow> 'r State outcome"
where
  "test_utf8_fixed_length_string env client param reply s =
     LOG_FUNCTION_CALL env ''test_utf8_fixed_length_string'' (\<lambda>s. Returned (reply param s)) s"

definition test_fire_and_forget_uint64 ::
  "'r Environment \<Rightarrow> 'c \<Rightarrow> 64 word \<Rightarrow> 'r State \<Rightarrow> 'r State outcome"
where
  "test_fire_and_forget_uint64 env client param s =
     LOG_FUNCTION_CALL env ''test_fire_and_forget_uint64'' (\<lambda>s. Returned (LOG (UInt64 param) s)) s"

definition test_fixed_length_array ::
  "'r Environment \<Rightarrow> 'c \<Rightarrow> 32 word list \<Rightarrow> (32 word list \<Rightarrow> 'r State \<Rightarrow> 'r State) \<Rightarrow> 'r State \<Rightarrow> 'r State outcome"
where
  "test_fixed_length_array env client param reply s =
     LOG_FUNCTION_CALL env ''test_fixed_length_array'' (\<lambda>s. Returned (reply param s)) s"

definition test_dynamic_length_1_byte_array ::
  "'r Environment \<Rightarrow> 'c \<Rightarrow> 32 word list \<Rightarrow> (32 word list \<Rightarrow> 'r State \<Rightarrow> 'r State) \<Rightarrow> 'r State \<Rightarrow> 'r State outcome"
where
  "test_dynamic_length_1_byte_array env client param reply s =
     LOG_FUNCTION_CALL env ''test_dynamic_length_1_byte_array'' (\<lambda>s. Returned (reply param s)) s"

definition test_dynamic_length_2_bytes_array ::
  "'r Environment \<Rightarrow> 'c \<Rightarrow> 32 word list \<Rightarrow> (32 word list \<Rightarrow> 'r State \<Rightarrow> 'r State) \<Rightarrow> 'r State \<Rightarrow> 'r State outcome"
where
  "test_dynamic_length_2_bytes_array env client param reply s =
     LOG_FUNCTION_CALL env ''test_dynamic_length_2_bytes_array'' (\<lambda>s. Returned (reply param s)) s"

definition test_dynamic_length_4_bytes_array ::
  "'r Environment \<Rightarrow> 'c \<Rightarrow> 32 word list \<Rightarrow> (32 word list \<Rightarrow> 'r State \<Rightarrow> 'r State) \<Rightarrow> 'r State \<Rightarrow> 'r State outcome"
where
  "test_dynamic_length_4_bytes_array env client param reply s =
     LOG_FUNCTION_CALL env ''test_dynamic_length_4_bytes_array'' (\<lambda>s. Returned (reply param s)) s"

section \<open>Notions used to state the properties\<close>

text \<open>
  The value of the macro \<open>__METHOD_NAME__\<close> in the function \<open>fname\<close>. (The
  exception branch of \<open>method_name\<close> is never taken: see \<open>method_name_total\<close>.)
\<close>

definition METHOD_NAME :: "'r Environment \<Rightarrow> string \<Rightarrow> string" where
  "METHOD_NAME env fname =
     (case method_name (PRETTY_FUNCTION env fname) of Inl e \<Rightarrow> [] | Inr name \<Rightarrow> name)"

text \<open>
  The three loops of the Manager share one shape: try an operation, and while it
  fails pause and try again. \<open>retry_loop\<close> is that shape on its own, with at most
  \<open>n\<close> attempts.
\<close>

fun retry_loop ::
  "nat \<Rightarrow> ('s \<Rightarrow> bool \<times> 's) \<Rightarrow> ('s \<Rightarrow> 's) \<Rightarrow> 's \<Rightarrow> 's outcome"
where
  "retry_loop 0 operation pause s = Blocked s"
| "retry_loop (Suc n) operation pause s =
     (case operation s of
        (ok, s1) \<Rightarrow> (if \<not> ok then retry_loop n operation pause (pause s1) else Returned s1))"

text \<open>
  An attempt on the runtime, seen on the whole state: the runtime's state moves on and
  the call is recorded with its answer.
\<close>

definition attempt :: "('r \<Rightarrow> bool \<times> 'r) \<Rightarrow> (bool \<Rightarrow> Event) \<Rightarrow> 'r State \<Rightarrow> bool \<times> 'r State" where
  "attempt op ev s =
     (case op (runtime s) of (ok, r) \<Rightarrow> (ok, record_call (ev ok) (s\<lparr>runtime := r\<rparr>)))"

text \<open>
  One poll of a proxy as an attempt: it succeeds when the proxy's answer is the one
  waited for.
\<close>

definition poll :: "'r Environment \<Rightarrow> Proxy \<Rightarrow> bool \<Rightarrow> 'r \<Rightarrow> bool \<times> 'r" where
  "poll env proxy to_be_available r =
     (case isAvailable env proxy r of (a, r') \<Rightarrow> (a = to_be_available, r'))"

definition Polled :: "Proxy \<Rightarrow> bool \<Rightarrow> bool \<Rightarrow> Event" where
  "Polled proxy to_be_available ok = IsAvailable proxy (ok = to_be_available)"

text \<open>
  What the runtime does is not known, so a property of a run is stated for a runtime
  that behaves in a given way from its present state \<open>r\<close>:
  \<open>fails_then_succeeds op pause K r\<close> says that the operation \<open>op\<close>, tried from \<open>r\<close>
  with a \<open>pause\<close> after each failure, fails \<open>K\<close> times and succeeds at attempt
  \<open>K + 1\<close>; \<open>state_after op pause K r\<close> is the runtime's state after that successful
  attempt. \<open>keeps_failing op pause n r\<close> says that the first \<open>n\<close> attempts all fail,
  and \<open>state_failed op pause n r\<close> is the state after their \<open>n\<close> pauses.
\<close>

primrec fails_then_succeeds :: "('r \<Rightarrow> bool \<times> 'r) \<Rightarrow> ('r \<Rightarrow> 'r) \<Rightarrow> nat \<Rightarrow> 'r \<Rightarrow> bool" where
  "fails_then_succeeds op pause 0 r = fst (op r)"
| "fails_then_succeeds op pause (Suc K) r =
     (\<not> fst (op r) \<and> fails_then_succeeds op pause K (pause (snd (op r))))"

primrec state_after :: "('r \<Rightarrow> bool \<times> 'r) \<Rightarrow> ('r \<Rightarrow> 'r) \<Rightarrow> nat \<Rightarrow> 'r \<Rightarrow> 'r" where
  "state_after op pause 0 r = snd (op r)"
| "state_after op pause (Suc K) r = state_after op pause K (pause (snd (op r)))"

primrec keeps_failing :: "('r \<Rightarrow> bool \<times> 'r) \<Rightarrow> ('r \<Rightarrow> 'r) \<Rightarrow> nat \<Rightarrow> 'r \<Rightarrow> bool" where
  "keeps_failing op pause 0 r = True"
| "keeps_failing op pause (Suc n) r =
     (\<not> fst (op r) \<and> keeps_failing op pause n (pause (snd (op r))))"

primrec state_failed :: "('r \<Rightarrow> bool \<times> 'r) \<Rightarrow> ('r \<Rightarrow> 'r) \<Rightarrow> nat \<Rightarrow> 'r \<Rightarrow> 'r" where
  "state_failed op pause 0 r = r"
| "state_failed op pause (Suc n) r = state_failed op pause n (pause (snd (op r)))"

text \<open>
  The events of \<open>n\<close> failed attempts, a sleep of \<open>RETRY_TIMEOUT\<close> after each; and the
  events of \<open>K\<close> failed attempts followed by the successful one.
\<close>

definition failures :: "(bool \<Rightarrow> Event) \<Rightarrow> nat \<Rightarrow> Event list" where
  "failures ev n = concat (replicate n [ev False, SleepFor RETRY_TIMEOUT])"

definition retries :: "(bool \<Rightarrow> Event) \<Rightarrow> nat \<Rightarrow> Event list" where
  "retries ev K = failures ev K @ [ev True]"

text \<open>
  \<open>extends s evs r' s'\<close>: the state \<open>s'\<close> is \<open>s\<close> after exactly the calls \<open>evs\<close>, made
  with the slot \<open>running_service\<close> as it is in \<open>s\<close> and left as it is, the runtime
  now being in state \<open>r'\<close>, and no stub allocated.
\<close>

definition extends :: "'r State \<Rightarrow> Event list \<Rightarrow> 'r \<Rightarrow> 'r State \<Rightarrow> bool" where
  "extends s evs r' s' =
     (trace s' = trace s @ map (\<lambda>e. Call e (has_value (running_service s))) evs \<and>
      runtime s' = r' \<and>
      running_service s' = running_service s \<and>
      stubs_made s' = stubs_made s)"

text \<open>
  The operations of the three loops on a service, and the events they leave: what
  \<open>register_service\<close>, \<open>unregister_service\<close> and \<open>wait_service\<close> pass to the
  runtime from the service's \<open>meta\<close> and \<open>handle\<close>.
\<close>

definition register_op :: "'r Environment \<Rightarrow> Service \<Rightarrow> 'r \<Rightarrow> bool \<times> 'r" where
  "register_op env service =
     registerService env (domain (meta service)) (instance (meta service)) (handle service)
       (connection (meta service))"

definition Registered :: "Service \<Rightarrow> bool \<Rightarrow> Event" where
  "Registered service =
     RegisterService (domain (meta service)) (instance (meta service)) (handle service)
       (connection (meta service))"

definition unregister_op :: "'r Environment \<Rightarrow> Service \<Rightarrow> 'r \<Rightarrow> bool \<times> 'r" where
  "unregister_op env service =
     unregisterService env (domain (meta service)) (interface (meta service))
       (instance (meta service))"

definition Unregistered :: "Service \<Rightarrow> bool \<Rightarrow> Event" where
  "Unregistered service =
     UnregisterService (domain (meta service)) (interface (meta service))
       (instance (meta service))"

definition proxy_of :: "Service \<Rightarrow> Proxy" where
  "proxy_of service =
     Proxy (domain (meta service)) (instance (meta service)) (connection (meta service))"

definition Built :: "Service \<Rightarrow> Event" where
  "Built service =
     BuildProxy (domain (meta service)) (instance (meta service)) (connection (meta service))"

text \<open>The pause between two attempts, on the runtime's state.\<close>

definition nap :: "'r Environment \<Rightarrow> 'r \<Rightarrow> 'r" where
  "nap env = sleep_for env RETRY_TIMEOUT"

text \<open>
  The runtime's state at the first poll of \<open>wait_service\<close>, entered with the runtime
  in state \<open>r\<close>: after \<open>Runtime::get()\<close> and \<open>buildProxy\<close>.
\<close>

definition probe_built :: "'r Environment \<Rightarrow> Service \<Rightarrow> 'r \<Rightarrow> 'r" where
  "probe_built env service r =
     buildProxy env (domain (meta service)) (instance (meta service)) (connection (meta service))
       (Runtime_get env r)"

text \<open>The service \<open>create_service\<close> makes in state \<open>s\<close>.\<close>

definition new_service :: "'r State \<Rightarrow> Service" where
  "new_service s = fst (create_service s)"

text \<open>
  The events of a whole transition: the first operation (register or unregister)
  tried \<open>K + 1\<close> times, then the proxy built and polled \<open>J + 1\<close> times; and the
  events of a transition still in its first or in its second loop after \<open>n\<close>
  attempts.
\<close>

definition transition_events :: "(bool \<Rightarrow> Event) \<Rightarrow> Service \<Rightarrow> bool \<Rightarrow> nat \<Rightarrow> nat \<Rightarrow> Event list" where
  "transition_events ev service to_be_available K J =
     RuntimeGet # retries ev K @
     RuntimeGet # Built service # retries (Polled (proxy_of service) to_be_available) J"

definition waiting_events :: "(bool \<Rightarrow> Event) \<Rightarrow> Service \<Rightarrow> bool \<Rightarrow> nat \<Rightarrow> nat \<Rightarrow> Event list" where
  "waiting_events ev service to_be_available K n =
     RuntimeGet # retries ev K @
     RuntimeGet # Built service # failures (Polled (proxy_of service) to_be_available) n"

definition trying_events :: "(bool \<Rightarrow> Event) \<Rightarrow> nat \<Rightarrow> Event list" where
  "trying_events ev n = RuntimeGet # failures ev n"

text \<open>
  The lifecycle of the specification: two states, and the state machine
  \<open>Stopped --launch--> Running\<close>, \<open>Running --terminate--> Stopped\<close>,
  \<open>Stopped --terminate--> Stopped\<close>, \<open>Running --launch--> Running\<close>. An operation
  carries the bound given to its loops.
\<close>

datatype LifecycleState = Stopped | Running

datatype Op = Launch nat | Terminate nat

fun spec_step :: "LifecycleState \<Rightarrow> Op \<Rightarrow> LifecycleState" where
  "spec_step Stopped (Launch n) = Running"
| "spec_step Running (Launch n) = Running"
| "spec_step Running (Terminate n) = Stopped"
| "spec_step Stopped (Terminate n) = Stopped"

definition spec_state :: "Op list \<Rightarrow> LifecycleState" where
  "spec_state ops = foldl spec_step Stopped ops"

text \<open>
  The code's side: one operation on the Manager, and a sequence of operations each of
  which returns before the next is begun.
\<close>

fun perform :: "'r Environment \<Rightarrow> Op \<Rightarrow> 'r State \<Rightarrow> 'r State outcome" where
  "perform env (Launch n) s = launch_test_service env n s"
| "perform env (Terminate n) s = terminate_test_service env n s"

fun run :: "'r Environment \<Rightarrow> Op list \<Rightarrow> 'r State \<Rightarrow> 'r State outcome" where
  "run env [] s = Returned s"
| "run env (op # ops) s = then_do (perform env op s) (run env ops)"

text \<open>
  A recorded call respects the slot when it is not a \<open>registerService\<close> made with
  the slot occupied, nor an \<open>unregisterService\<close> made with the slot empty.
\<close>

fun guarded :: "Call \<Rightarrow> bool" where
  "guarded (Call (RegisterService d i h c ok) occupied) = (\<not> occupied)"
| "guarded (Call (UnregisterService d f i ok) occupied) = occupied"
| "guarded (Call e occupied) = True"

text \<open>
  An event is routed from a service when its arguments are the fields of the
  service's \<open>meta\<close> that the source passes: domain, instance, handle and connection to
  \<open>registerService\<close>; domain, interface and instance to \<open>unregisterService\<close>; domain,
  instance and connection to \<open>buildProxy\<close>, whose proxy is the one polled.
\<close>

fun routed :: "Service \<Rightarrow> Event \<Rightarrow> bool" where
  "routed service (RegisterService d i h c ok) =
     (d = domain (meta service) \<and> i = instance (meta service) \<and> h = handle service \<and>
      c = connection (meta service))"
| "routed service (UnregisterService d f i ok) =
     (d = domain (meta service) \<and> f = interface (meta service) \<and> i = instance (meta service))"
| "routed service (BuildProxy d i c) =
     (d = domain (meta service) \<and> i = instance (meta service) \<and> c = connection (meta service))"
| "routed service (IsAvailable proxy a) =
     (proxy = Proxy (domain (meta service)) (instance (meta service)) (connection (meta service)))"
| "routed service e = True"

text \<open>
  The events of the calls made between a state \<open>s\<close> and a later state \<open>s'\<close>, and
  the kinds of event that are counted.
\<close>

definition calls_since :: "'r State \<Rightarrow> 'r State \<Rightarrow> Event list" where
  "calls_since s s' = map event (drop (length (trace s)) (trace s'))"

fun is_register :: "Event \<Rightarrow> bool" where
  "is_register (RegisterService d i h c ok) = True"
| "is_register e = False"

fun is_unregister :: "Event \<Rightarrow> bool" where
  "is_unregister (UnregisterService d f i ok) = True"
| "is_unregister e = False"

fun is_sleep :: "Event \<Rightarrow> bool" where
  "is_sleep (SleepFor ms) = True"
| "is_sleep e = False"

fun is_poll :: "Event \<Rightarrow> bool" where
  "is_poll (IsAvailable proxy a) = True"
| "is_poll e = False"

text \<open>A registration that the runtime accepted.\<close>

fun is_registration :: "Event \<Rightarrow> bool" where
  "is_registration (RegisterService d i h c ok) = ok"
| "is_registration e = False"

text \<open>
  A runtime for trying the model on: it answers \<open>registerService\<close>,
  \<open>unregisterService\<close> and \<open>isAvailable\<close> from three lists of answers prepared in
  advance, one answer per call, and when a list is used up it accepts every
  registration and unregistration and reports the service unavailable. Its
  \<open>__PRETTY_FUNCTION__\<close> is that of a member function of \<open>Manager\<close> without
  parameters.
\<close>

record Script =
  register_answers :: "bool list"
  unregister_answers :: "bool list"
  available_answers :: "bool list"

definition scripted :: "Script Environment" where
  "scripted =
     \<lparr>setProperty = (\<lambda>name val r. r),
      Runtime_get = (\<lambda>r. r),
      registerService = (\<lambda>d i h c r.
        (case register_answers r of
           [] \<Rightarrow> (True, r)
         | a # as \<Rightarrow> (a, r\<lparr>register_answers := as\<rparr>))),
      unregisterService = (\<lambda>d f i r.
        (case unregister_answers r of
           [] \<Rightarrow> (True, r)
         | a # as \<Rightarrow> (a, r\<lparr>unregister_answers := as\<rparr>))),
      buildProxy = (\<lambda>d i c r. r),
      isAvailable = (\<lambda>proxy r.
        (case available_answers r of
           [] \<Rightarrow> (False, r)
         | a # as \<Rightarrow> (a, r\<lparr>available_answers := as\<rparr>))),
      sleep_for = (\<lambda>ms r. r),
      PRETTY_FUNCTION = (\<lambda>fname. ''void test_service::Manager::'' @ fname @ ''()'')\<rparr>"

text \<open>
  Three scripts. With \<open>script_retry\<close> the registration is refused twice and then
  accepted, the service is reported available at the second poll, the unregistration
  is refused once, and the service is reported gone at the second poll after that.
  With \<open>script_prompt\<close> everything succeeds at once. With \<open>script_silent\<close> the service
  is never reported available.
\<close>

definition script_retry :: Script where
  "script_retry =
     \<lparr>register_answers = [False, False, True], unregister_answers = [False, True],
      available_answers = [False, True, True, False]\<rparr>"

definition script_prompt :: Script where
  "script_prompt =
     \<lparr>register_answers = [], unregister_answers = [], available_answers = [True, False]\<rparr>"

definition script_silent :: Script where
  "script_silent = \<lparr>register_answers = [], unregister_answers = [], available_answers = []\<rparr>"

text \<open>
  The Manager constructed on the scripted runtime, the Manager after a launch that
  has returned, and the service that launch created.
\<close>

definition stopped0 :: "Script \<Rightarrow> Script State" where
  "stopped0 script = Manager scripted script"

definition running0 :: "Script \<Rightarrow> Script State" where
  "running0 script = state_of (launch_test_service scripted 3 (stopped0 script))"

definition service0 :: Service where
  "service0 =
     \<lparr>meta = \<lparr>domain = ''local'', instance = ''test.TestService'',
              interface = ''test.TestService:v0_1'', connection = ''test-service''\<rparr>,
      handle = 0\<rparr>"

text \<open>
  What a handler of the stub that echoes does with its input \<open>v\<close>: the function is
  logged on entry, the reply callback is called once, with \<open>v\<close> itself, and the
  function is logged on exit. \<open>observed\<close> is what the fire-and-forget handler does:
  the same, with a log of \<open>v\<close> in place of the reply.
\<close>

definition echo ::
  "'r Environment \<Rightarrow> string \<Rightarrow> 'v \<Rightarrow> ('v \<Rightarrow> 'r State \<Rightarrow> 'r State) \<Rightarrow> 'r State \<Rightarrow> 'r State outcome"
where
  "echo env fname v reply s =
     Returned (ScopedFunctionLogger_dtor (METHOD_NAME env fname)
                 (reply v (ScopedFunctionLogger (METHOD_NAME env fname) s)))"

definition observed :: "'r Environment \<Rightarrow> string \<Rightarrow> 64 word \<Rightarrow> 'r State \<Rightarrow> 'r State outcome" where
  "observed env fname v s =
     Returned (ScopedFunctionLogger_dtor (METHOD_NAME env fname)
                 (LOG (UInt64 v) (ScopedFunctionLogger (METHOD_NAME env fname) s)))"

section \<open>Strings: searching and \<open>method_name\<close>\<close>

lemma find_last_bound: "find_last pat s = Some i \<Longrightarrow> i + length pat \<le> length s"
proof (induction s arbitrary: i)
  case Nil
  then show ?case by (simp split: if_splits)
next
  case (Cons c cs)
  then show ?case
    by (auto split: option.splits if_splits dest: prefix_length_le)
qed

lemma unat_succ_le: "unat ((of_nat i :: size_t) + 1) \<le> Suc i"
  by (metis Abs_fnat_hom_Suc le_unat_uoi nat_le_linear word_succ_p1)

lemma unat_of_nat_size_t: "n < 2 ^ 64 \<Longrightarrow> unat (of_nat n :: size_t) = n"
  by (simp add: unat_of_nat)

lemma substr_zero: "substr s 0 n = Inr (take (unat n) s)"
  by (simp add: substr_def min_def)

lemma begin_in_range: "unat (string_rfind (take k s) '' '' + 1) \<le> length s"
proof (cases "find_last '' '' (take k s)")
  case None
  then show ?thesis by (simp add: string_rfind_def npos_def)
next
  case (Some i)
  from find_last_bound[OF Some] have "Suc i \<le> length s" by simp
  with unat_succ_le[of i] show ?thesis
    by (simp add: string_rfind_def Some)
qed

lemma method_name_total: "\<exists>name. method_name p = Inr name"
  using begin_in_range[of "unat (string_find p ''::'')" p]
  by (simp add: method_name_def Let_def substr_zero) (simp add: substr_def)

lemma prefix_colons_Cons:
  "prefix ''::'' (x # ys) \<longleftrightarrow> x = CHR '':'' \<and> (\<exists>zs. ys = CHR '':'' # zs)"
  by (cases ys) auto

lemma find_first_colons:
  "\<not> sublist ''::'' (a @ '':'') \<Longrightarrow> find_first ''::'' (a @ ''::'' @ b) = Some (length a)"
proof (induction a)
  case Nil
  then show ?case by simp
next
  case (Cons x a)
  have 1: "\<not> sublist ''::'' (a @ '':'')"
    using Cons.prems by (auto simp: sublist_Cons_right)
  have 2: "\<not> prefix ''::'' (x # a @ ''::'' @ b)"
  proof
    assume "prefix ''::'' (x # a @ ''::'' @ b)"
    then have "x = CHR '':''" and "\<exists>zs. a @ ''::'' @ b = CHR '':'' # zs"
      by (simp_all only: prefix_colons_Cons)
    then have "prefix ''::'' (x # a @ '':'')"
      by (cases a) auto
    then show False using Cons.prems by (auto simp: sublist_Cons_right)
  qed
  show ?case using Cons.IH[OF 1] 2 by simp
qed

lemma find_last_absent: "c \<notin> set ys \<Longrightarrow> find_last [c] ys = None"
  by (induction ys) auto

lemma find_last_char:
  "c \<notin> set ys \<Longrightarrow> find_last [c] (xs @ c # ys) = Some (length xs)"
  by (induction xs) (auto simp: find_last_absent)

lemma method_name_shape:
  assumes s: "s = pre @ '' '' @ mid @ ''::'' @ rest @ ''('' @ suf"
    and first: "\<not> sublist ''::'' (pre @ '' '' @ mid @ '':'')"
    and space: "CHR '' '' \<notin> set mid"
    and paren: "CHR ''('' \<notin> set suf"
    and len: "length s < 2 ^ 64"
  shows "method_name s = Inr (mid @ ''::'' @ rest @ ''()'')"
proof -
  let ?c = "length (pre @ '' '' @ mid)"
  let ?p = "length (pre @ '' '' @ mid @ ''::'' @ rest)"
  have "find_first ''::'' ((pre @ '' '' @ mid) @ ''::'' @ (rest @ ''('' @ suf)) = Some ?c"
    by (rule find_first_colons) (use first in simp)
  then have ff: "find_first ''::'' s = Some ?c" by (simp add: s)
  have c_lt: "?c < 2 ^ 64" using len by (simp add: s)
  have colons: "unat (string_find s ''::'') = ?c"
    by (simp only: string_find_def ff option.case unat_of_nat_size_t[OF c_lt])
  have head: "substr s 0 (string_find s ''::'') = Inr (pre @ '' '' @ mid)"
    by (simp only: substr_zero colons) (simp add: s)
  have "find_last '' '' (pre @ CHR '' '' # mid) = Some (length pre)"
    by (rule find_last_char) (rule space)
  then have fl: "find_last '' '' (pre @ '' '' @ mid) = Some (length pre)" by simp
  have b_lt: "Suc (length pre) < 2 ^ 64" using len by (simp add: s)
  have begin_eq: "string_rfind (pre @ '' '' @ mid) '' '' + 1 = (of_nat (Suc (length pre)) :: size_t)"
    by (simp only: string_rfind_def fl option.case) simp
  have begin_unat: "unat (of_nat (Suc (length pre)) :: size_t) = Suc (length pre)"
    by (rule unat_of_nat_size_t[OF b_lt])
  have "find_last ''('' ((pre @ '' '' @ mid @ ''::'' @ rest) @ CHR ''('' # suf) = Some ?p"
    by (rule find_last_char) (rule paren)
  then have fp: "find_last ''('' s = Some ?p" by (simp add: s)
  have "(of_nat ?p :: size_t) - of_nat (Suc (length pre)) = of_nat (?p - Suc (length pre))"
    by (subst of_nat_diff) simp_all
  moreover have "?p - Suc (length pre) < 2 ^ 64" using len by (simp add: s)
  ultimately have end_eq: "unat (string_rfind s ''('' - of_nat (Suc (length pre))) = ?p - Suc (length pre)"
    by (simp only: string_rfind_def fp option.case unat_of_nat_size_t)
  have name: "substr s (of_nat (Suc (length pre))) (string_rfind s ''('' - of_nat (Suc (length pre)))
      = Inr (mid @ ''::'' @ rest)"
    unfolding substr_def begin_unat end_eq by (simp add: s)
  show ?thesis
    unfolding method_name_def Let_def head sum.case begin_eq name by simp
qed

lemma split_last_unique:
  "pre @ c # mid = pre' @ c # mid' \<Longrightarrow> c \<notin> set mid \<Longrightarrow> c \<notin> set mid' \<Longrightarrow> mid = mid'"
proof (induction pre arbitrary: pre')
  case Nil
  then show ?case by (cases pre') auto
next
  case (Cons x p)
  then show ?case by (cases pre') auto
qed

lemma split_last_unique_both:
  assumes "pre @ c # mid = pre' @ c # mid'" and "c \<notin> set mid" and "c \<notin> set mid'"
  shows "pre = pre' \<and> mid = mid'"
proof -
  have "mid = mid'" using assms by (rule split_last_unique)
  with assms(1) show ?thesis by simp
qed

section \<open>The retry loop\<close>

lemma extends_refl: "extends s [] (runtime s) s"
  by (simp add: extends_def)

lemma extends_trans:
  "extends s e1 r1 s1 \<Longrightarrow> extends s1 e2 r2 s2 \<Longrightarrow> extends s (e1 @ e2) r2 s2"
  by (simp add: extends_def)

lemma extends_LOG_right: "extends s evs r s' \<Longrightarrow> extends s evs r (LOG m s')"
  by (simp add: extends_def LOG_def)

lemma extends_LOG_left: "extends (LOG m s) evs r s' \<Longrightarrow> extends s evs r s'"
  by (simp add: extends_def LOG_def)

lemma extends_record_call:
  "extends s [e] r (record_call e (s\<lparr>runtime := r\<rparr>))"
  by (simp add: extends_def record_call_def)

lemma extends_sleep:
  "extends s [SleepFor RETRY_TIMEOUT] (sleep_for env RETRY_TIMEOUT (runtime s)) (sleep env s)"
  unfolding sleep_def by (rule extends_record_call)

lemma extends_attempt:
  "extends s [ev (fst (op (runtime s)))] (snd (op (runtime s))) (snd (attempt op ev s))"
  unfolding attempt_def by (simp add: split_beta extends_record_call)

lemma fst_attempt: "fst (attempt op ev s) = fst (op (runtime s))"
  by (simp add: attempt_def split_beta)

lemma failures_Suc: "failures ev (Suc n) = ev False # SleepFor RETRY_TIMEOUT # failures ev n"
  by (simp add: failures_def)

lemma retries_Suc: "retries ev (Suc n) = ev False # SleepFor RETRY_TIMEOUT # retries ev n"
  by (simp add: retries_def failures_Suc)

lemma retries_0: "retries ev 0 = [ev True]"
  by (simp add: retries_def failures_def)

lemma failures_0: "failures ev 0 = []"
  by (simp add: failures_def)

lemma retry_loop_Returned:
  assumes B: "\<And>s. extends s [SleepFor RETRY_TIMEOUT] (pause (runtime s)) (B s)"
  shows "retry_loop n (attempt op ev) B s = Returned s' \<Longrightarrow>
      \<exists>K<n. fails_then_succeeds op pause K (runtime s) \<and>
            extends s (retries ev K) (state_after op pause K (runtime s)) s'"
proof (induction n arbitrary: s)
  case 0
  then show ?case by simp
next
  case (Suc n)
  let ?s1 = "snd (attempt op ev s)"
  show ?case
  proof (cases "fst (op (runtime s))")
    case True
    with Suc.prems have "s' = ?s1"
      by (simp add: split_beta fst_attempt)
    with True extends_attempt[of s ev op] have
      "fails_then_succeeds op pause 0 (runtime s) \<and>
       extends s (retries ev 0) (state_after op pause 0 (runtime s)) s'"
      by (simp add: retries_0)
    then show ?thesis by blast
  next
    case False
    with Suc.prems have "retry_loop n (attempt op ev) B (B ?s1) = Returned s'"
      by (simp add: split_beta fst_attempt)
    from Suc.IH[OF this] obtain K where K: "K < n"
      "fails_then_succeeds op pause K (runtime (B ?s1))"
      "extends (B ?s1) (retries ev K) (state_after op pause K (runtime (B ?s1))) s'"
      by blast
    have e1: "extends s [ev False] (snd (op (runtime s))) ?s1"
      using extends_attempt[of s ev op] False by simp
    have e2: "extends s ([ev False] @ [SleepFor RETRY_TIMEOUT]) (pause (snd (op (runtime s)))) (B ?s1)"
      using extends_trans[OF e1 B[of ?s1]] e1 by (simp add: extends_def)
    then have rt: "runtime (B ?s1) = pause (snd (op (runtime s)))"
      by (simp add: extends_def)
    have "extends s (retries ev (Suc K)) (state_after op pause (Suc K) (runtime s)) s'"
      using extends_trans[OF e2 K(3)] by (simp add: retries_Suc rt)
    moreover have "fails_then_succeeds op pause (Suc K) (runtime s)"
      using K(2) False by (simp add: rt)
    ultimately show ?thesis using K(1) by blast
  qed
qed

lemma retry_loop_succeeds:
  assumes B: "\<And>s. extends s [SleepFor RETRY_TIMEOUT] (pause (runtime s)) (B s)"
  shows "fails_then_succeeds op pause K (runtime s) \<Longrightarrow> K < n \<Longrightarrow>
      \<exists>s'. retry_loop n (attempt op ev) B s = Returned s'"
proof (induction K arbitrary: s n)
  case 0
  then obtain m where "n = Suc m" by (cases n) auto
  with 0 show ?case by (simp add: split_beta fst_attempt)
next
  case (Suc K)
  then obtain m where n: "n = Suc m" "K < m" by (cases n) auto
  let ?s1 = "snd (attempt op ev s)"
  have "runtime ?s1 = snd (op (runtime s))"
    using extends_attempt[of s ev op] by (simp add: extends_def)
  then have rt: "runtime (B ?s1) = pause (snd (op (runtime s)))"
    using B[of ?s1] by (simp add: extends_def)
  from Suc.prems have "fails_then_succeeds op pause K (runtime (B ?s1))"
    by (simp add: rt)
  from Suc.IH[OF this n(2)] Suc.prems(1) show ?case
    by (simp add: n split_beta fst_attempt)
qed

lemma retry_loop_Blocked:
  assumes B: "\<And>s. extends s [SleepFor RETRY_TIMEOUT] (pause (runtime s)) (B s)"
  shows "retry_loop n (attempt op ev) B s = Blocked s' \<Longrightarrow>
      keeps_failing op pause n (runtime s) \<and>
      extends s (failures ev n) (state_failed op pause n (runtime s)) s'"
proof (induction n arbitrary: s)
  case 0
  then show ?case by (simp add: failures_0 extends_refl)
next
  case (Suc n)
  let ?s1 = "snd (attempt op ev s)"
  from Suc.prems have False: "\<not> fst (op (runtime s))"
    by (auto simp: split_beta fst_attempt split: if_splits)
  with Suc.prems have "retry_loop n (attempt op ev) B (B ?s1) = Blocked s'"
    by (simp add: split_beta fst_attempt)
  note IH = Suc.IH[OF this]
  have e1: "extends s [ev False] (snd (op (runtime s))) ?s1"
    using extends_attempt[of s ev op] False by simp
  have e2: "extends s ([ev False] @ [SleepFor RETRY_TIMEOUT]) (pause (snd (op (runtime s)))) (B ?s1)"
    using extends_trans[OF e1 B[of ?s1]] e1 by (simp add: extends_def)
  then have rt: "runtime (B ?s1) = pause (snd (op (runtime s)))"
    by (simp add: extends_def)
  have "extends s (failures ev (Suc n)) (state_failed op pause (Suc n) (runtime s)) s'"
    using extends_trans[OF e2 conjunct2[OF IH]] by (simp add: failures_Suc rt)
  moreover have "keeps_failing op pause (Suc n) (runtime s)"
    using IH False by (simp add: rt)
  ultimately show ?case by blast
qed

lemma retry_loop_no_throw: "retry_loop n operation pause s \<noteq> Threw e s'"
  by (induction n arbitrary: s) (auto split: prod.splits)

lemma fails_then_succeeds_unique:
  "fails_then_succeeds op pause K r \<Longrightarrow> fails_then_succeeds op pause K' r \<Longrightarrow> K = K'"
proof (induction K arbitrary: K' r)
  case 0
  then show ?case by (cases K') auto
next
  case (Suc K)
  then show ?case by (cases K') auto
qed

lemma keeps_failing_not_succeeds:
  "keeps_failing op pause n r \<Longrightarrow> K < n \<Longrightarrow> \<not> fails_then_succeeds op pause K r"
proof (induction K arbitrary: n r)
  case 0
  then show ?case by (cases n) auto
next
  case (Suc K)
  then show ?case by (cases n) auto
qed

section \<open>The scoped function logger\<close>

lemma method_name_METHOD_NAME: "method_name (PRETTY_FUNCTION env fname) = Inr (METHOD_NAME env fname)"
  using method_name_total[of "PRETTY_FUNCTION env fname"] by (auto simp: METHOD_NAME_def)

lemma LOG_FUNCTION_CALL_eq:
  "LOG_FUNCTION_CALL env fname body s =
     (case body (ScopedFunctionLogger (METHOD_NAME env fname) s) of
        Returned s' \<Rightarrow> Returned (ScopedFunctionLogger_dtor (METHOD_NAME env fname) s')
      | Blocked s' \<Rightarrow> Blocked s'
      | Threw e s' \<Rightarrow> Threw e (ScopedFunctionLogger_dtor (METHOD_NAME env fname) s'))"
  by (simp add: LOG_FUNCTION_CALL_def method_name_METHOD_NAME)

lemma echo_handler:
  "LOG_FUNCTION_CALL env fname (\<lambda>s. Returned (reply v s)) s = echo env fname v reply s"
  by (simp add: LOG_FUNCTION_CALL_eq echo_def)

section \<open>The three retrying functions\<close>

lemma extends_ctor_left: "extends (ScopedFunctionLogger m s) evs r s' \<Longrightarrow> extends s evs r s'"
  unfolding ScopedFunctionLogger_def by (rule extends_LOG_left)

lemma extends_dtor_right: "extends s evs r s' \<Longrightarrow> extends s evs r (ScopedFunctionLogger_dtor m s')"
  unfolding ScopedFunctionLogger_dtor_def by (rule extends_LOG_right)

lemma logged_retry_cases:
  assumes prep: "\<And>s. extends s pre (init (runtime s)) (prepare s)"
    and B: "\<And>s. extends s [SleepFor RETRY_TIMEOUT] (pause (runtime s)) (B s)"
  obtains (returned) K s' where
      "K < n" "fails_then_succeeds op pause K (init (runtime s))"
      "LOG_FUNCTION_CALL env fname (\<lambda>s. retry_loop n (attempt op ev) B (prepare s)) s = Returned s'"
      "extends s (pre @ retries ev K) (state_after op pause K (init (runtime s))) s'"
  | (blocked) s' where
      "keeps_failing op pause n (init (runtime s))"
      "LOG_FUNCTION_CALL env fname (\<lambda>s. retry_loop n (attempt op ev) B (prepare s)) s = Blocked s'"
      "extends s (pre @ failures ev n) (state_failed op pause n (init (runtime s))) s'"
proof -
  let ?m = "METHOD_NAME env fname"
  let ?s0 = "ScopedFunctionLogger ?m s"
  have s0: "extends s pre (init (runtime s)) (prepare ?s0)"
    using prep[of ?s0] by (simp add: extends_def ScopedFunctionLogger_def LOG_def)
  then have rt: "runtime (prepare ?s0) = init (runtime s)" by (simp add: extends_def)
  show thesis
  proof (cases "retry_loop n (attempt op ev) B (prepare ?s0)")
    case (Returned s1)
    from retry_loop_Returned[OF B this] obtain K where K: "K < n"
      "fails_then_succeeds op pause K (init (runtime s))"
      "extends (prepare ?s0) (retries ev K) (state_after op pause K (init (runtime s))) s1"
      unfolding rt by blast
    have "extends s (pre @ retries ev K) (state_after op pause K (init (runtime s)))
            (ScopedFunctionLogger_dtor ?m s1)"
      by (rule extends_dtor_right) (rule extends_trans[OF s0 K(3)])
    with K(1,2) Returned show ?thesis
      by (intro returned[of K "ScopedFunctionLogger_dtor ?m s1"]) (simp_all add: LOG_FUNCTION_CALL_eq)
  next
    case (Blocked s1)
    from retry_loop_Blocked[OF B this] have K: 
      "keeps_failing op pause n (init (runtime s))"
      "extends (prepare ?s0) (failures ev n) (state_failed op pause n (init (runtime s))) s1"
      unfolding rt by blast+
    have "extends s (pre @ failures ev n) (state_failed op pause n (init (runtime s))) s1"
      by (rule extends_trans[OF s0 K(2)])
    with K(1) Blocked show ?thesis
      by (intro blocked[of s1]) (simp_all add: LOG_FUNCTION_CALL_eq)
  next
    case (Threw e s1)
    then show ?thesis by (simp add: retry_loop_no_throw)
  qed
qed

lemma call_registerService_attempt:
  "call_registerService env (domain (meta service)) (instance (meta service)) (handle service)
     (connection (meta service)) = attempt (register_op env service) (Registered service)"
  by (rule ext) (simp add: call_registerService_def attempt_def register_op_def Registered_def)

lemma call_unregisterService_attempt:
  "call_unregisterService env (domain (meta service)) (interface (meta service))
     (instance (meta service)) = attempt (unregister_op env service) (Unregistered service)"
  by (rule ext) (simp add: call_unregisterService_def attempt_def unregister_op_def Unregistered_def)

lemma register_loop_retry:
  "register_loop n env service s =
     retry_loop n (attempt (register_op env service) (Registered service))
       (\<lambda>s1. sleep env (LOG (Text ''Couldn't register service, trying again...'') s1)) s"
  by (induction n arbitrary: s) (simp_all add: call_registerService_attempt split: prod.splits)

lemma unregister_loop_retry:
  "unregister_loop n env service s =
     retry_loop n (attempt (unregister_op env service) (Unregistered service))
       (\<lambda>s1. sleep env (LOG (Text ''Couldn't unregister service, trying again...'') s1)) s"
  by (induction n arbitrary: s) (simp_all add: call_unregisterService_attempt split: prod.splits)

lemma call_isAvailable_attempt:
  "(case call_isAvailable env proxy s of (a, s1) \<Rightarrow> (a = tba, s1))
     = attempt (poll env proxy tba) (Polled proxy tba) s"
proof -
  have "((a = tba) = tba) = a" for a by auto
  then show ?thesis
    by (auto simp: call_isAvailable_def attempt_def poll_def Polled_def split: prod.splits)
qed

lemma wait_loop_retry:
  "wait_loop n env proxy tba s =
     retry_loop n (attempt (poll env proxy tba) (Polled proxy tba)) (sleep env) s"
proof (induction n arbitrary: s)
  case 0
  show ?case by simp
next
  case (Suc n)
  show ?case
    by (simp add: Suc call_isAvailable_attempt[symmetric] split: prod.splits)
qed

lemma extends_sleep_LOG:
  "extends s [SleepFor RETRY_TIMEOUT] (nap env (runtime s)) (sleep env (LOG m s))"
  using extends_sleep[of "LOG m s" env] unfolding nap_def
  by (simp add: extends_def LOG_def)

lemma extends_nap:
  "extends s [SleepFor RETRY_TIMEOUT] (nap env (runtime s)) (sleep env s)"
  unfolding nap_def by (rule extends_sleep)

lemma extends_Runtime_get:
  "extends s [RuntimeGet] (Runtime_get env (runtime s)) (call_Runtime_get env s)"
  unfolding call_Runtime_get_def by (rule extends_record_call)

lemma extends_buildProxy:
  "extends s [RuntimeGet, Built service] (probe_built env service (runtime s))
     (snd (call_buildProxy env (domain (meta service)) (instance (meta service))
            (connection (meta service)) (call_Runtime_get env s)))"
proof -
  let ?s1 = "call_Runtime_get env s"
  have "extends ?s1 [Built service] (probe_built env service (runtime s))
     (snd (call_buildProxy env (domain (meta service)) (instance (meta service))
            (connection (meta service)) ?s1))"
    using extends_record_call[of ?s1 "Built service" "probe_built env service (runtime s)"]
      extends_Runtime_get[of s env]
    by (simp add: call_buildProxy_def Built_def probe_built_def extends_def)
  from extends_trans[OF extends_Runtime_get this] show ?thesis by simp
qed

lemma register_service_cases:
  obtains (returned) K s' where
      "K < n" "fails_then_succeeds (register_op env service) (nap env) K (Runtime_get env (runtime s))"
      "register_service env n service s = Returned s'"
      "extends s (RuntimeGet # retries (Registered service) K)
         (state_after (register_op env service) (nap env) K (Runtime_get env (runtime s))) s'"
  | (blocked) s' where
      "keeps_failing (register_op env service) (nap env) n (Runtime_get env (runtime s))"
      "register_service env n service s = Blocked s'"
      "extends s (RuntimeGet # failures (Registered service) n)
         (state_failed (register_op env service) (nap env) n (Runtime_get env (runtime s))) s'"
proof -
  note c = logged_retry_cases[where prepare = "call_Runtime_get env" and pre = "[RuntimeGet]"
      and init = "Runtime_get env" and pause = "nap env" and env = env and n = n and s = s
      and B = "\<lambda>s1. sleep env (LOG (Text ''Couldn't register service, trying again...'') s1)"
      and op = "register_op env service" and ev = "Registered service"
      and fname = "''register_service''",
      OF extends_Runtime_get extends_sleep_LOG]
  show thesis
    by (rule c) (auto intro: returned blocked simp: register_service_def register_loop_retry)
qed

lemma unregister_service_cases:
  obtains (returned) K s' where
      "K < n" "fails_then_succeeds (unregister_op env service) (nap env) K (Runtime_get env (runtime s))"
      "unregister_service env n service s = Returned s'"
      "extends s (RuntimeGet # retries (Unregistered service) K)
         (state_after (unregister_op env service) (nap env) K (Runtime_get env (runtime s))) s'"
  | (blocked) s' where
      "keeps_failing (unregister_op env service) (nap env) n (Runtime_get env (runtime s))"
      "unregister_service env n service s = Blocked s'"
      "extends s (RuntimeGet # failures (Unregistered service) n)
         (state_failed (unregister_op env service) (nap env) n (Runtime_get env (runtime s))) s'"
proof -
  note c = logged_retry_cases[where prepare = "call_Runtime_get env" and pre = "[RuntimeGet]"
      and init = "Runtime_get env" and pause = "nap env" and env = env and n = n and s = s
      and B = "\<lambda>s1. sleep env (LOG (Text ''Couldn't unregister service, trying again...'') s1)"
      and op = "unregister_op env service" and ev = "Unregistered service"
      and fname = "''unregister_service''",
      OF extends_Runtime_get extends_sleep_LOG]
  show thesis
    by (rule c) (auto intro: returned blocked simp: unregister_service_def unregister_loop_retry)
qed

lemma wait_service_cases:
  obtains (returned) J s' where
      "J < n"
      "fails_then_succeeds (poll env (proxy_of service) tba) (nap env) J
         (probe_built env service (runtime s))"
      "wait_service env n service tba s = Returned s'"
      "extends s (RuntimeGet # Built service # retries (Polled (proxy_of service) tba) J)
         (state_after (poll env (proxy_of service) tba) (nap env) J
            (probe_built env service (runtime s))) s'"
  | (blocked) s' where
      "keeps_failing (poll env (proxy_of service) tba) (nap env) n
         (probe_built env service (runtime s))"
      "wait_service env n service tba s = Blocked s'"
      "extends s (RuntimeGet # Built service # failures (Polled (proxy_of service) tba) n)
         (state_failed (poll env (proxy_of service) tba) (nap env) n
            (probe_built env service (runtime s))) s'"
proof -
  note c = logged_retry_cases[where
      prepare = "\<lambda>s. snd (call_buildProxy env (domain (meta service)) (instance (meta service))
            (connection (meta service)) (call_Runtime_get env s))"
      and pre = "[RuntimeGet, Built service]"
      and init = "probe_built env service" and pause = "nap env" and env = env and n = n and s = s
      and B = "sleep env"
      and op = "poll env (proxy_of service) tba" and ev = "Polled (proxy_of service) tba"
      and fname = "''wait_service''",
      OF extends_buildProxy extends_nap]
  have eq: "wait_service env n service tba s =
     LOG_FUNCTION_CALL env ''wait_service''
      (\<lambda>s. retry_loop n (attempt (poll env (proxy_of service) tba) (Polled (proxy_of service) tba))
             (sleep env)
             (snd (call_buildProxy env (domain (meta service)) (instance (meta service))
                (connection (meta service)) (call_Runtime_get env s)))) s"
    by (simp add: wait_service_def wait_loop_retry call_buildProxy_def proxy_of_def)
  show thesis
    by (rule c) (auto intro: returned blocked simp: eq)
qed

section \<open>The two transitions\<close>

lemma then_do_Returned_iff:
  "then_do x f = Returned s' \<longleftrightarrow> (\<exists>s1. x = Returned s1 \<and> f s1 = Returned s')"
  by (cases x) auto

lemma create_service_eq:
  "create_service s = (new_service s, s\<lparr>stubs_made := Suc (stubs_made s)\<rparr>)"
  by (simp add: create_service_def new_service_def Let_def)

lemma new_service_ctor [simp]: "new_service (ScopedFunctionLogger m s) = new_service s"
  by (simp add: new_service_def create_service_def ScopedFunctionLogger_def LOG_def Let_def)

lemma ctor_fields [simp]:
  "trace (ScopedFunctionLogger m s) = trace s"
  "runtime (ScopedFunctionLogger m s) = runtime s"
  "running_service (ScopedFunctionLogger m s) = running_service s"
  "stubs_made (ScopedFunctionLogger m s) = stubs_made s"
  by (simp_all add: ScopedFunctionLogger_def LOG_def)

lemma dtor_fields [simp]:
  "trace (ScopedFunctionLogger_dtor m s) = trace s"
  "runtime (ScopedFunctionLogger_dtor m s) = runtime s"
  "running_service (ScopedFunctionLogger_dtor m s) = running_service s"
  "stubs_made (ScopedFunctionLogger_dtor m s) = stubs_made s"
  by (simp_all add: ScopedFunctionLogger_dtor_def LOG_def)

lemma LOG_fields [simp]:
  "trace (LOG m s) = trace s"
  "runtime (LOG m s) = runtime s"
  "running_service (LOG m s) = running_service s"
  "stubs_made (LOG m s) = stubs_made s"
  by (simp_all add: LOG_def)

lemma launch_cases:
  fixes env :: "'r Environment" and s :: "'r State" and n :: nat
  defines "svc \<equiv> new_service s"
  defines "r0 \<equiv> Runtime_get env (runtime s)"
  defines "rw \<equiv> \<lambda>K. probe_built env svc (state_after (register_op env svc) (nap env) K r0)"
  assumes stopped: "\<not> has_value (running_service s)"
  obtains (returned) K J s' where
      "K < n" "J < n"
      "fails_then_succeeds (register_op env svc) (nap env) K r0"
      "fails_then_succeeds (poll env (proxy_of svc) True) (nap env) J (rw K)"
      "launch_test_service env n s = Returned s'"
      "trace s' = trace s @ map (\<lambda>e. Call e False) (transition_events (Registered svc) svc True K J)"
      "running_service s' = Some svc"
      "runtime s' = state_after (poll env (proxy_of svc) True) (nap env) J (rw K)"
      "stubs_made s' = Suc (stubs_made s)"
  | (waiting) K s' where
      "K < n"
      "fails_then_succeeds (register_op env svc) (nap env) K r0"
      "keeps_failing (poll env (proxy_of svc) True) (nap env) n (rw K)"
      "launch_test_service env n s = Blocked s'"
      "trace s' = trace s @ map (\<lambda>e. Call e False) (waiting_events (Registered svc) svc True K n)"
      "running_service s' = None"
  | (registering) s' where
      "keeps_failing (register_op env svc) (nap env) n r0"
      "launch_test_service env n s = Blocked s'"
      "trace s' = trace s @ map (\<lambda>e. Call e False) (trying_events (Registered svc) n)"
      "running_service s' = None"
proof -
  let ?m = "METHOD_NAME env ''launch_test_service''"
  let ?s0 = "ScopedFunctionLogger ?m s"
  let ?s1 = "?s0\<lparr>stubs_made := Suc (stubs_made s)\<rparr>"
  let ?fin = "\<lambda>s3. Returned (s3\<lparr>running_service := Some svc\<rparr>)"
  let ?body = "then_do (register_service env n svc ?s1)
                 (\<lambda>s2. then_do (wait_service env n svc True s2) ?fin)"
  have none: "running_service s = None" using stopped by (simp add: has_value_def)
  have launch: "launch_test_service env n s =
     (case ?body of
        Returned s' \<Rightarrow> Returned (ScopedFunctionLogger_dtor ?m s')
      | Blocked s' \<Rightarrow> Blocked s'
      | Threw e s' \<Rightarrow> Threw e (ScopedFunctionLogger_dtor ?m s'))"
    using stopped
    by (simp add: launch_test_service_def LOG_FUNCTION_CALL_eq create_service_eq svc_def)
  have s1: "trace ?s1 = trace s" "runtime ?s1 = runtime s" "running_service ?s1 = None"
    "stubs_made ?s1 = Suc (stubs_made s)"
    using none by simp_all
  show thesis
  proof (cases rule: register_service_cases[of n env svc ?s1])
    case (returned K s2)
    note reg = returned
    have s2: "trace s2 = trace s @ map (\<lambda>e. Call e False) (RuntimeGet # retries (Registered svc) K)"
      "runtime s2 = state_after (register_op env svc) (nap env) K r0"
      "running_service s2 = None" "stubs_made s2 = Suc (stubs_made s)"
      using reg(4) s1 by (simp_all add: extends_def has_value_def r0_def)
    show ?thesis
    proof (cases rule: wait_service_cases[of n env svc True s2])
      case (returned J s3)
      have s3: "trace s3 = trace s @ map (\<lambda>e. Call e False)
                    (transition_events (Registered svc) svc True K J)"
        "runtime s3 = state_after (poll env (proxy_of svc) True) (nap env) J (rw K)"
        "running_service s3 = None" "stubs_made s3 = Suc (stubs_made s)"
        using returned(4) s2
        by (simp_all add: extends_def has_value_def rw_def transition_events_def)
      have "launch_test_service env n s
              = Returned (ScopedFunctionLogger_dtor ?m (s3\<lparr>running_service := Some svc\<rparr>))"
        by (simp add: launch reg(3) returned(3))
      moreover have "fails_then_succeeds (register_op env svc) (nap env) K r0"
        using reg(2) s1 by (simp add: r0_def)
      moreover have "fails_then_succeeds (poll env (proxy_of svc) True) (nap env) J (rw K)"
        using returned(2) s2 by (simp add: rw_def)
      ultimately show ?thesis
        using reg(1) returned(1) s3
        by (intro that(1)[of K J "ScopedFunctionLogger_dtor ?m (s3\<lparr>running_service := Some svc\<rparr>)"])
           simp_all
    next
      case (blocked s3)
      have s3: "trace s3 = trace s @ map (\<lambda>e. Call e False)
                    (waiting_events (Registered svc) svc True K n)"
        "running_service s3 = None"
        using blocked(3) s2
        by (simp_all add: extends_def has_value_def waiting_events_def)
      have "launch_test_service env n s = Blocked s3"
        by (simp add: launch reg(3) blocked(2))
      moreover have "fails_then_succeeds (register_op env svc) (nap env) K r0"
        using reg(2) s1 by (simp add: r0_def)
      moreover have "keeps_failing (poll env (proxy_of svc) True) (nap env) n (rw K)"
        using blocked(1) s2 by (simp add: rw_def)
      ultimately show ?thesis
        using reg(1) s3 by (intro that(2)[of K s3]) simp_all
    qed
  next
    case (blocked s2)
    have s2: "trace s2 = trace s @ map (\<lambda>e. Call e False) (trying_events (Registered svc) n)"
      "running_service s2 = None"
      using blocked(3) s1 by (simp_all add: extends_def has_value_def trying_events_def)
    have "launch_test_service env n s = Blocked s2"
      by (simp add: launch blocked(2))
    moreover have "keeps_failing (register_op env svc) (nap env) n r0"
      using blocked(1) s1 by (simp add: r0_def)
    ultimately show ?thesis
      using s2 by (intro that(3)[of s2]) simp_all
  qed
qed

lemma terminate_cases:
  fixes env :: "'r Environment" and s :: "'r State" and n :: nat
  defines "r0 \<equiv> Runtime_get env (runtime s)"
  assumes running: "running_service s = Some svc"
  defines "rw \<equiv> \<lambda>K. probe_built env svc (state_after (unregister_op env svc) (nap env) K r0)"
  obtains (returned) K J s' where
      "K < n" "J < n"
      "fails_then_succeeds (unregister_op env svc) (nap env) K r0"
      "fails_then_succeeds (poll env (proxy_of svc) False) (nap env) J (rw K)"
      "terminate_test_service env n s = Returned s'"
      "trace s' = trace s @ map (\<lambda>e. Call e True) (transition_events (Unregistered svc) svc False K J)"
      "running_service s' = None"
      "runtime s' = state_after (poll env (proxy_of svc) False) (nap env) J (rw K)"
      "stubs_made s' = stubs_made s"
  | (waiting) K s' where
      "K < n"
      "fails_then_succeeds (unregister_op env svc) (nap env) K r0"
      "keeps_failing (poll env (proxy_of svc) False) (nap env) n (rw K)"
      "terminate_test_service env n s = Blocked s'"
      "trace s' = trace s @ map (\<lambda>e. Call e True) (waiting_events (Unregistered svc) svc False K n)"
      "running_service s' = Some svc"
  | (unregistering) s' where
      "keeps_failing (unregister_op env svc) (nap env) n r0"
      "terminate_test_service env n s = Blocked s'"
      "trace s' = trace s @ map (\<lambda>e. Call e True) (trying_events (Unregistered svc) n)"
      "running_service s' = Some svc"
proof -
  let ?m = "METHOD_NAME env ''terminate_test_service''"
  let ?s0 = "ScopedFunctionLogger ?m s"
  let ?fin = "\<lambda>s3. Returned (s3\<lparr>running_service := None\<rparr>)"
  let ?body = "then_do (unregister_service env n svc ?s0)
                 (\<lambda>s2. then_do (optional_value s2 (\<lambda>s service. wait_service env n service False s)) ?fin)"
  have terminate: "terminate_test_service env n s =
     (case ?body of
        Returned s' \<Rightarrow> Returned (ScopedFunctionLogger_dtor ?m s')
      | Blocked s' \<Rightarrow> Blocked s'
      | Threw e s' \<Rightarrow> Threw e (ScopedFunctionLogger_dtor ?m s'))"
    using running
    by (simp add: terminate_test_service_def LOG_FUNCTION_CALL_eq has_value_def optional_value_def)
  have s0: "trace ?s0 = trace s" "runtime ?s0 = runtime s" "running_service ?s0 = Some svc"
    "stubs_made ?s0 = stubs_made s"
    using running by simp_all
  show thesis
  proof (cases rule: unregister_service_cases[of n env svc ?s0])
    case (returned K s2)
    note unreg = returned
    have s2: "trace s2 = trace s @ map (\<lambda>e. Call e True) (RuntimeGet # retries (Unregistered svc) K)"
      "runtime s2 = state_after (unregister_op env svc) (nap env) K r0"
      "running_service s2 = Some svc" "stubs_made s2 = stubs_made s"
      using unreg(4) s0 by (simp_all add: extends_def has_value_def r0_def)
    have opt: "optional_value s2 (\<lambda>s service. wait_service env n service False s)
                 = wait_service env n svc False s2"
      using s2(3) by (simp add: optional_value_def)
    show ?thesis
    proof (cases rule: wait_service_cases[of n env svc False s2])
      case (returned J s3)
      have s3: "trace s3 = trace s @ map (\<lambda>e. Call e True)
                    (transition_events (Unregistered svc) svc False K J)"
        "runtime s3 = state_after (poll env (proxy_of svc) False) (nap env) J (rw K)"
        "running_service s3 = Some svc" "stubs_made s3 = stubs_made s"
        using returned(4) s2
        by (simp_all add: extends_def has_value_def rw_def transition_events_def)
      have "terminate_test_service env n s
              = Returned (ScopedFunctionLogger_dtor ?m (s3\<lparr>running_service := None\<rparr>))"
        by (simp add: terminate unreg(3) opt returned(3))
      moreover have "fails_then_succeeds (unregister_op env svc) (nap env) K r0"
        using unreg(2) s0 by (simp add: r0_def)
      moreover have "fails_then_succeeds (poll env (proxy_of svc) False) (nap env) J (rw K)"
        using returned(2) s2 by (simp add: rw_def)
      ultimately show ?thesis
        using unreg(1) returned(1) s3
        by (intro that(1)[of K J "ScopedFunctionLogger_dtor ?m (s3\<lparr>running_service := None\<rparr>)"])
           simp_all
    next
      case (blocked s3)
      have s3: "trace s3 = trace s @ map (\<lambda>e. Call e True)
                    (waiting_events (Unregistered svc) svc False K n)"
        "running_service s3 = Some svc"
        using blocked(3) s2
        by (simp_all add: extends_def has_value_def waiting_events_def)
      have "terminate_test_service env n s = Blocked s3"
        by (simp add: terminate unreg(3) opt blocked(2))
      moreover have "fails_then_succeeds (unregister_op env svc) (nap env) K r0"
        using unreg(2) s0 by (simp add: r0_def)
      moreover have "keeps_failing (poll env (proxy_of svc) False) (nap env) n (rw K)"
        using blocked(1) s2 by (simp add: rw_def)
      ultimately show ?thesis
        using unreg(1) s3 by (intro that(2)[of K s3]) simp_all
    qed
  next
    case (blocked s2)
    have s2: "trace s2 = trace s @ map (\<lambda>e. Call e True) (trying_events (Unregistered svc) n)"
      "running_service s2 = Some svc"
      using blocked(3) s0 by (simp_all add: extends_def has_value_def trying_events_def)
    have "terminate_test_service env n s = Blocked s2"
      by (simp add: terminate blocked(2))
    moreover have "keeps_failing (unregister_op env svc) (nap env) n r0"
      using blocked(1) s0 by (simp add: r0_def)
    ultimately show ?thesis
      using s2 by (intro that(3)[of s2]) simp_all
  qed
qed

lemma launch_when_running:
  assumes "has_value (running_service s)"
  shows "launch_test_service env n s =
     Returned (ScopedFunctionLogger_dtor (METHOD_NAME env ''launch_test_service'')
       (LOG (Text ''Ignoring an attempt to launch - service is already launched.'')
          (ScopedFunctionLogger (METHOD_NAME env ''launch_test_service'') s)))"
  using assms by (simp add: launch_test_service_def LOG_FUNCTION_CALL_eq)

lemma terminate_when_stopped:
  assumes "\<not> has_value (running_service s)"
  shows "terminate_test_service env n s =
     Returned (ScopedFunctionLogger_dtor (METHOD_NAME env ''terminate_test_service'')
       (LOG (Text ''Ignoring an attempt to terminate - service hasn't been launched.'')
          (ScopedFunctionLogger (METHOD_NAME env ''terminate_test_service'') s)))"
  using assms by (simp add: terminate_test_service_def LOG_FUNCTION_CALL_eq)

section \<open>Every call of a transition\<close>

lemma calls_since_append:
  "trace s' = trace s @ map (\<lambda>e. Call e b) evs \<Longrightarrow> calls_since s s' = evs"
  by (simp add: calls_since_def comp_def)

lemma failures_all:
  assumes "Q (SleepFor RETRY_TIMEOUT)" and "Q (ev False)"
  shows "list_all Q (failures ev n)"
  using assms by (induction n) (simp_all add: failures_0 failures_Suc)

lemma retries_all:
  assumes "Q (SleepFor RETRY_TIMEOUT)" and "Q (ev False)" and "Q (ev True)"
  shows "list_all Q (retries ev n)"
  using assms by (simp add: retries_def failures_all)

lemma events_all:
  assumes "Q RuntimeGet" and "Q (SleepFor RETRY_TIMEOUT)" and "Q (Built svc)"
    and "\<And>ok. Q (ev ok)" and "\<And>ok. Q (Polled (proxy_of svc) tba ok)"
  shows "list_all Q (transition_events ev svc tba K J)"
    and "list_all Q (waiting_events ev svc tba K n)"
    and "list_all Q (trying_events ev n)"
  using assms
  by (simp_all add: transition_events_def waiting_events_def trying_events_def
        retries_all failures_all)

lemma launch_trace:
  assumes "\<not> has_value (running_service s)"
    and "Q RuntimeGet" and "Q (SleepFor RETRY_TIMEOUT)" and "Q (Built (new_service s))"
    and "\<And>ok. Q (Registered (new_service s) ok)"
    and "\<And>ok. Q (Polled (proxy_of (new_service s)) True ok)"
  shows "\<exists>evs. trace (state_of (launch_test_service env n s))
                 = trace s @ map (\<lambda>e. Call e False) evs \<and> list_all Q evs"
  using assms(1)
proof (cases rule: launch_cases[where n = n and env = env])
  case (returned K J s')
  with events_all(1)[of Q, OF assms(2-6)] show ?thesis by auto
next
  case (waiting K s')
  with events_all(2)[of Q, OF assms(2-6)] show ?thesis by auto
next
  case (registering s')
  with events_all(3)[of Q, OF assms(2-6)] show ?thesis by auto
qed

lemma terminate_trace:
  assumes "running_service s = Some svc"
    and "Q RuntimeGet" and "Q (SleepFor RETRY_TIMEOUT)" and "Q (Built svc)"
    and "\<And>ok. Q (Unregistered svc ok)"
    and "\<And>ok. Q (Polled (proxy_of svc) False ok)"
  shows "\<exists>evs. trace (state_of (terminate_test_service env n s))
                 = trace s @ map (\<lambda>e. Call e True) evs \<and> list_all Q evs"
  using assms(1)
proof (cases rule: terminate_cases[where n = n and env = env])
  case (returned K J s')
  with events_all(1)[of Q, OF assms(2-6)] show ?thesis by auto
next
  case (waiting K s')
  with events_all(2)[of Q, OF assms(2-6)] show ?thesis by auto
next
  case (unregistering s')
  with events_all(3)[of Q, OF assms(2-6)] show ?thesis by auto
qed

lemma launch_guarded:
  assumes "list_all guarded (trace s)"
  shows "list_all guarded (trace (state_of (launch_test_service env n s)))"
proof (cases "has_value (running_service s)")
  case True
  with assms show ?thesis by (simp add: launch_when_running)
next
  case False
  from launch_trace[OF False, of "\<lambda>e. guarded (Call e False)" env n]
  obtain evs where "trace (state_of (launch_test_service env n s))
      = trace s @ map (\<lambda>e. Call e False) evs" "list_all (\<lambda>e. guarded (Call e False)) evs"
    by (auto simp: Built_def Registered_def Polled_def)
  with assms show ?thesis by (simp add: list.pred_map comp_def)
qed

lemma terminate_guarded:
  assumes "list_all guarded (trace s)"
  shows "list_all guarded (trace (state_of (terminate_test_service env n s)))"
proof (cases "running_service s")
  case None
  with assms show ?thesis by (simp add: terminate_when_stopped has_value_def)
next
  case (Some svc)
  from terminate_trace[OF Some, of "\<lambda>e. guarded (Call e True)" env n]
  obtain evs where "trace (state_of (terminate_test_service env n s))
      = trace s @ map (\<lambda>e. Call e True) evs" "list_all (\<lambda>e. guarded (Call e True)) evs"
    by (auto simp: Built_def Unregistered_def Polled_def)
  with assms show ?thesis by (simp add: list.pred_map comp_def)
qed

lemma perform_guarded:
  "list_all guarded (trace s) \<Longrightarrow> list_all guarded (trace (state_of (perform env op s)))"
  by (cases op) (simp_all add: launch_guarded terminate_guarded)

lemma launch_no_throw: "launch_test_service env n s \<noteq> Threw e s'"
proof (cases "has_value (running_service s)")
  case True
  then show ?thesis by (simp add: launch_when_running)
next
  case False
  then show ?thesis by (cases rule: launch_cases[where n = n and env = env]) simp_all
qed

lemma terminate_no_throw: "terminate_test_service env n s \<noteq> Threw e s'"
proof (cases "running_service s")
  case None
  then show ?thesis by (simp add: terminate_when_stopped has_value_def)
next
  case (Some svc)
  then show ?thesis by (cases rule: terminate_cases[where n = n and env = env]) simp_all
qed

lemma launch_Returned_slot:
  assumes "launch_test_service env n s = Returned s'"
  shows "has_value (running_service s')"
proof (cases "has_value (running_service s)")
  case True
  with assms show ?thesis by (auto simp: launch_when_running)
next
  case False
  then show ?thesis using assms
    by (cases rule: launch_cases[where n = n and env = env]) (simp_all add: has_value_def)
qed

lemma terminate_Returned_slot:
  assumes "terminate_test_service env n s = Returned s'"
  shows "\<not> has_value (running_service s')"
proof (cases "running_service s")
  case None
  with assms show ?thesis by (auto simp: terminate_when_stopped has_value_def)
next
  case (Some svc)
  then show ?thesis using assms
    by (cases rule: terminate_cases[where n = n and env = env]) (simp_all add: has_value_def)
qed

lemma perform_slot:
  "perform env op s = Returned s' \<Longrightarrow> has_value (running_service s') = (spec_step st op = Running)"
  by (cases op; cases st) (auto dest: launch_Returned_slot terminate_Returned_slot)

lemma run_invariant:
  "run env ops s0 = Returned s \<Longrightarrow> list_all guarded (trace s0) \<Longrightarrow>
   has_value (running_service s0) = (st0 = Running) \<Longrightarrow>
   has_value (running_service s) = (foldl spec_step st0 ops = Running) \<and>
   list_all guarded (trace s)"
proof (induction ops arbitrary: s0 st0)
  case Nil
  then show ?case by simp
next
  case (Cons op ops)
  from Cons.prems(1) obtain s1 where s1: "perform env op s0 = Returned s1"
    "run env ops s1 = Returned s"
    by (auto simp: then_do_Returned_iff)
  have "list_all guarded (trace s1)"
    using perform_guarded[OF Cons.prems(2), of env op] s1(1) by simp
  moreover have "has_value (running_service s1) = (spec_step st0 op = Running)"
    using s1(1) by (rule perform_slot)
  ultimately show ?case
    using Cons.IH[OF s1(2)] by simp
qed

lemma Manager_fields:
  "running_service (Manager env r) = None"
  "trace (Manager env r) =
     [Call (SetProperty ''LibraryBase'' SOMEIP_GEN_LIBRARY_NAME_BASE) False, Call RuntimeGet False]"
  by (simp_all add: Manager_def configure_common_api_runtime_def call_Runtime_get_def
        call_setProperty_def record_call_def has_value_def)

section \<open>When a transition returns\<close>

lemma launch_returns:
  fixes env :: "'r Environment" and s :: "'r State" and K J n :: nat
  defines "svc \<equiv> new_service s"
  defines "r0 \<equiv> Runtime_get env (runtime s)"
  defines "rw \<equiv> probe_built env svc (state_after (register_op env svc) (nap env) K r0)"
  assumes stopped: "\<not> has_value (running_service s)"
    and reg: "fails_then_succeeds (register_op env svc) (nap env) K r0" "K < n"
    and avail: "fails_then_succeeds (poll env (proxy_of svc) True) (nap env) J rw" "J < n"
  obtains s' where "launch_test_service env n s = Returned s'"
    and "trace s' = trace s @ map (\<lambda>e. Call e False) (transition_events (Registered svc) svc True K J)"
    and "running_service s' = Some svc"
    and "runtime s' = state_after (poll env (proxy_of svc) True) (nap env) J rw"
  using stopped
proof (cases rule: launch_cases[where n = n and env = env])
  case (returned K' J' s')
  have K: "K' = K"
    using returned(3) reg(1) unfolding svc_def r0_def by (rule fails_then_succeeds_unique)
  have J: "J' = J"
    using returned(4) avail(1) unfolding svc_def r0_def rw_def K
    by (rule fails_then_succeeds_unique)
  show ?thesis
    using returned(5-8) unfolding K J by (intro that[of s']) (simp_all add: svc_def r0_def rw_def)
next
  case (waiting K' s')
  have K: "K' = K"
    using waiting(2) reg(1) unfolding svc_def r0_def by (rule fails_then_succeeds_unique)
  have "\<not> fails_then_succeeds (poll env (proxy_of svc) True) (nap env) J rw"
    using waiting(3) avail(2) unfolding svc_def r0_def rw_def K
    by (rule keeps_failing_not_succeeds)
  with avail(1) show ?thesis by simp
next
  case (registering s')
  have "\<not> fails_then_succeeds (register_op env svc) (nap env) K r0"
    using registering(1) reg(2) unfolding svc_def r0_def by (rule keeps_failing_not_succeeds)
  with reg(1) show ?thesis by simp
qed

lemma terminate_returns:
  fixes env :: "'r Environment" and s :: "'r State" and K J n :: nat
  defines "r0 \<equiv> Runtime_get env (runtime s)"
  assumes running: "running_service s = Some svc"
  defines "rw \<equiv> probe_built env svc (state_after (unregister_op env svc) (nap env) K r0)"
  assumes unreg: "fails_then_succeeds (unregister_op env svc) (nap env) K r0" "K < n"
    and gone: "fails_then_succeeds (poll env (proxy_of svc) False) (nap env) J rw" "J < n"
  obtains s' where "terminate_test_service env n s = Returned s'"
    and "trace s' = trace s @ map (\<lambda>e. Call e True) (transition_events (Unregistered svc) svc False K J)"
    and "running_service s' = None"
    and "runtime s' = state_after (poll env (proxy_of svc) False) (nap env) J rw"
  using running
proof (cases rule: terminate_cases[where n = n and env = env])
  case (returned K' J' s')
  have K: "K' = K"
    using returned(3) unreg(1) unfolding r0_def by (rule fails_then_succeeds_unique)
  have J: "J' = J"
    using returned(4) gone(1) unfolding r0_def rw_def K
    by (rule fails_then_succeeds_unique)
  show ?thesis
    using returned(5-8) unfolding K J by (intro that[of s']) (simp_all add: r0_def rw_def)
next
  case (waiting K' s')
  have K: "K' = K"
    using waiting(2) unreg(1) unfolding r0_def by (rule fails_then_succeeds_unique)
  have "\<not> fails_then_succeeds (poll env (proxy_of svc) False) (nap env) J rw"
    using waiting(3) gone(2) unfolding r0_def rw_def K
    by (rule keeps_failing_not_succeeds)
  with gone(1) show ?thesis by simp
next
  case (unregistering s')
  have "\<not> fails_then_succeeds (unregister_op env svc) (nap env) K r0"
    using unregistering(1) unreg(2) unfolding r0_def by (rule keeps_failing_not_succeeds)
  with unreg(1) show ?thesis by simp
qed

section \<open>Counting events\<close>

lemma filter_failures_none:
  "\<not> Q (SleepFor RETRY_TIMEOUT) \<Longrightarrow> \<not> Q (ev False) \<Longrightarrow> filter Q (failures ev n) = []"
  by (induction n) (simp_all add: failures_0 failures_Suc)

lemma count_failures_attempts:
  "\<not> Q (SleepFor RETRY_TIMEOUT) \<Longrightarrow> Q (ev False) \<Longrightarrow> length (filter Q (failures ev n)) = n"
  by (induction n) (simp_all add: failures_0 failures_Suc)

lemma count_failures_sleeps:
  "\<not> is_sleep (ev False) \<Longrightarrow> length (filter is_sleep (failures ev n)) = n"
  by (induction n) (simp_all add: failures_0 failures_Suc)

lemma polls_and_sleeps_no_register:
  "list_all (\<lambda>e. is_poll e \<or> is_sleep e) evs \<Longrightarrow> filter is_register evs = []"
proof (induction evs)
  case Nil
  show ?case by simp
next
  case (Cons e evs)
  then show ?case by (cases e) simp_all
qed

lemma polls_and_sleeps_no_unregister:
  "list_all (\<lambda>e. is_poll e \<or> is_sleep e) evs \<Longrightarrow> filter is_unregister evs = []"
proof (induction evs)
  case Nil
  show ?case by simp
next
  case (Cons e evs)
  then show ?case by (cases e) simp_all
qed

lemma last_retries: "last (retries ev K) = ev True"
  by (simp add: retries_def)

lemma polled_all: "list_all (\<lambda>e. is_poll e \<or> is_sleep e) (retries (Polled p b) J)"
  "list_all (\<lambda>e. is_poll e \<or> is_sleep e) (failures (Polled p b) n)"
  by (simp_all add: retries_all failures_all Polled_def)

lemma launch_after_registration:
  assumes stopped: "\<not> has_value (running_service s)"
    and reg: "fails_then_succeeds (register_op env (new_service s)) (nap env) K
                (Runtime_get env (runtime s))" "K < n"
  obtains evs where
    "trace (state_of (launch_test_service env n s)) = trace s @ map (\<lambda>e. Call e False)
       (RuntimeGet # retries (Registered (new_service s)) K @
        RuntimeGet # Built (new_service s) # evs)"
    and "list_all (\<lambda>e. is_poll e \<or> is_sleep e) evs"
  using stopped
proof (cases rule: launch_cases[where n = n and env = env])
  case (returned K' J' s')
  have K: "K' = K"
    using returned(3) reg(1) by (rule fails_then_succeeds_unique)
  show ?thesis
    using returned(5,6) unfolding K
    by (intro that[of "retries (Polled (proxy_of (new_service s)) True) J'"])
       (simp_all add: transition_events_def polled_all)
next
  case (waiting K' s')
  have K: "K' = K"
    using waiting(2) reg(1) by (rule fails_then_succeeds_unique)
  show ?thesis
    using waiting(4,5) unfolding K
    by (intro that[of "failures (Polled (proxy_of (new_service s)) True) n"])
       (simp_all add: waiting_events_def polled_all)
next
  case (registering s')
  have "\<not> fails_then_succeeds (register_op env (new_service s)) (nap env) K
            (Runtime_get env (runtime s))"
    using registering(1) reg(2) by (rule keeps_failing_not_succeeds)
  with reg(1) show ?thesis by simp
qed

lemma terminate_after_unregistration:
  assumes running: "running_service s = Some svc"
    and unreg: "fails_then_succeeds (unregister_op env svc) (nap env) K
                  (Runtime_get env (runtime s))" "K < n"
  obtains evs where
    "trace (state_of (terminate_test_service env n s)) = trace s @ map (\<lambda>e. Call e True)
       (RuntimeGet # retries (Unregistered svc) K @ RuntimeGet # Built svc # evs)"
    and "list_all (\<lambda>e. is_poll e \<or> is_sleep e) evs"
  using running
proof (cases rule: terminate_cases[where n = n and env = env])
  case (returned K' J' s')
  have K: "K' = K"
    using returned(3) unreg(1) by (rule fails_then_succeeds_unique)
  show ?thesis
    using returned(5,6) unfolding K
    by (intro that[of "retries (Polled (proxy_of svc) False) J'"])
       (simp_all add: transition_events_def polled_all)
next
  case (waiting K' s')
  have K: "K' = K"
    using waiting(2) unreg(1) by (rule fails_then_succeeds_unique)
  show ?thesis
    using waiting(4,5) unfolding K
    by (intro that[of "failures (Polled (proxy_of svc) False) n"])
       (simp_all add: waiting_events_def polled_all)
next
  case (unregistering s')
  have "\<not> fails_then_succeeds (unregister_op env svc) (nap env) K (Runtime_get env (runtime s))"
    using unregistering(1) unreg(2) by (rule keeps_failing_not_succeeds)
  with unreg(1) show ?thesis by simp
qed

lemma count_register_attempts:
  "length (filter is_register (retries (Registered svc) K)) = Suc K"
  by (simp add: retries_def count_failures_attempts Registered_def)

lemma count_unregister_attempts:
  "length (filter is_unregister (retries (Unregistered svc) K)) = Suc K"
  by (simp add: retries_def count_failures_attempts Unregistered_def)

lemma count_retry_sleeps:
  "length (filter is_sleep (retries (Registered svc) K)) = K"
  "length (filter is_sleep (retries (Unregistered svc) K)) = K"
  by (simp_all add: retries_def count_failures_sleeps Registered_def Unregistered_def)

section \<open>Runs on the scripted runtime\<close>

lemma returned_state_of: "returned x \<Longrightarrow> x = Returned (state_of x)"
  by (cases x) simp_all

lemma launch0_returns:
  "launch_test_service scripted 3 (stopped0 script_retry) = Returned (running0 script_retry)"
proof -
  have "returned (launch_test_service scripted 3 (stopped0 script_retry))" by code_simp
  then show ?thesis unfolding running0_def by (rule returned_state_of)
qed

lemma stopped0_empty: "\<not> has_value (running_service (stopped0 script))"
  by (simp add: stopped0_def Manager_fields has_value_def)

lemma running0_service: "running_service (running0 script_retry) = Some service0"
  by code_simp

section \<open>The stub echoes\<close>

text \<open>
  C8. Each of the twenty-two two-way handlers of \<open>TestServiceStubImpl\<close> (bool, the
  signed and unsigned integers of 8, 16, 32 and 64 bits, double, float, the aggregate,
  the six strings and the four arrays of \<open>uint32_t\<close>), for every input value, every
  reply callback and every state, returns after calling its reply callback exactly
  once, on the input value unchanged, between the two log lines of the function; the
  fire-and-forget handler has no reply callback and only logs its input.
\<close>

theorem stub_echoes:
  "test_bool env client v0 reply0 s = echo env ''test_bool'' v0 reply0 s \<and>
   test_int8 env client v1 reply1 s = echo env ''test_int8'' v1 reply1 s \<and>
   test_int16 env client v2 reply2 s = echo env ''test_int16'' v2 reply2 s \<and>
   test_int32 env client v3 reply3 s = echo env ''test_int32'' v3 reply3 s \<and>
   test_int64 env client v4 reply4 s = echo env ''test_int64'' v4 reply4 s \<and>
   test_uint8 env client v5 reply5 s = echo env ''test_uint8'' v5 reply5 s \<and>
   test_uint16 env client v6 reply6 s = echo env ''test_uint16'' v6 reply6 s \<and>
   test_uint32 env client v7 reply7 s = echo env ''test_uint32'' v7 reply7 s \<and>
   test_uint64 env client v8 reply8 s = echo env ''test_uint64'' v8 reply8 s \<and>
   test_double env client v9 reply9 s = echo env ''test_double'' v9 reply9 s \<and>
   test_float env client v10 reply10 s = echo env ''test_float'' v10 reply10 s \<and>
   test_struct env client v11 reply11 s = echo env ''test_struct'' v11 reply11 s \<and>
   test_utf16le_dynamic_length_string env client v12 reply12 s = echo env ''test_utf16le_dynamic_length_string'' v12 reply12 s \<and>
   test_utf16be_dynamic_length_string env client v13 reply13 s = echo env ''test_utf16be_dynamic_length_string'' v13 reply13 s \<and>
   test_utf8_dynamic_length_string env client v14 reply14 s = echo env ''test_utf8_dynamic_length_string'' v14 reply14 s \<and>
   test_utf16le_fixed_length_string env client v15 reply15 s = echo env ''test_utf16le_fixed_length_string'' v15 reply15 s \<and>
   test_utf16be_fixed_length_string env client v16 reply16 s = echo env ''test_utf16be_fixed_length_string'' v16 reply16 s \<and>
   test_utf8_fixed_length_string env client v17 reply17 s = echo env ''test_utf8_fixed_length_string'' v17 reply17 s \<and>
   test_fixed_length_array env client v18 reply18 s = echo env ''test_fixed_length_array'' v18 reply18 s \<and>
   test_dynamic_length_1_byte_array env client v19 reply19 s = echo env ''test_dynamic_length_1_byte_array'' v19 reply19 s \<and>
   test_dynamic_length_2_bytes_array env client v20 reply20 s = echo env ''test_dynamic_length_2_bytes_array'' v20 reply20 s \<and>
   test_dynamic_length_4_bytes_array env client v21 reply21 s = echo env ''test_dynamic_length_4_bytes_array'' v21 reply21 s \<and>
   test_fire_and_forget_uint64 env client w s = observed env ''test_fire_and_forget_uint64'' w s"
  unfolding test_bool_def test_int8_def test_int16_def test_int32_def test_int64_def test_uint8_def test_uint16_def test_uint32_def test_uint64_def test_double_def test_float_def test_struct_def test_utf16le_dynamic_length_string_def test_utf16be_dynamic_length_string_def test_utf8_dynamic_length_string_def test_utf16le_fixed_length_string_def test_utf16be_fixed_length_string_def test_utf8_fixed_length_string_def test_fixed_length_array_def test_dynamic_length_1_byte_array_def test_dynamic_length_2_bytes_array_def test_dynamic_length_4_bytes_array_def test_fire_and_forget_uint64_def echo_handler
  by (simp add: observed_def echo_def)

section \<open>The method name\<close>

text \<open>
  C9. Let a string contain \<open>::\<close>, first at the end of \<open>a\<close>, with a space somewhere
  before it (in \<open>a\<close>) and an opening parenthesis somewhere after it (in \<open>b\<close>), and
  let its length fit \<open>size_t\<close>. Then \<open>method_name\<close> throws nothing and returns the
  characters from just after the last space of \<open>a\<close> up to, and without, the last
  opening parenthesis of the string, followed by \<open>()\<close>.
\<close>

theorem method_name_of_pretty_function:
  assumes "s = a @ ''::'' @ b"
    and "\<not> sublist ''::'' (a @ '':'')"
    and "CHR '' '' \<in> set a"
    and "CHR ''('' \<in> set b"
    and "length s < 2 ^ 64"
  shows "\<exists>pre mid rest suf.
           a = pre @ '' '' @ mid \<and> CHR '' '' \<notin> set mid \<and>
           b = rest @ ''('' @ suf \<and> CHR ''('' \<notin> set suf \<and>
           method_name s = Inr (mid @ ''::'' @ rest @ ''()'')"
proof -
  from assms(3) obtain pre mid where a: "a = pre @ CHR '' '' # mid" "CHR '' '' \<notin> set mid"
    by (auto dest: split_list_last)
  from assms(4) obtain rest suf where b: "b = rest @ CHR ''('' # suf" "CHR ''('' \<notin> set suf"
    by (auto dest: split_list_last)
  have "method_name s = Inr (mid @ ''::'' @ rest @ ''()'')"
    by (rule method_name_shape[where pre = pre and suf = suf])
       (use assms a b in simp_all)
  with a b show ?thesis by auto
qed

theorem method_name_of_pretty_function_witness:
  "''void test_service::Manager::launch_test_service()''
     = ''void test_service'' @ ''::'' @ ''Manager::launch_test_service()'' \<and>
   \<not> sublist ''::'' (''void test_service'' @ '':'') \<and>
   CHR '' '' \<in> set ''void test_service'' \<and>
   CHR ''('' \<in> set ''Manager::launch_test_service()'' \<and>
   length ''void test_service::Manager::launch_test_service()'' < 2 ^ 64 \<and>
   method_name ''void test_service::Manager::launch_test_service()''
     = Inr ''test_service::Manager::launch_test_service()''"
proof -
  have h: "''void test_service::Manager::launch_test_service()''
             = ''void test_service'' @ ''::'' @ ''Manager::launch_test_service()''"
    "\<not> sublist ''::'' (''void test_service'' @ '':'')"
    "CHR '' '' \<in> set ''void test_service''"
    "CHR ''('' \<in> set ''Manager::launch_test_service()''"
    "length ''void test_service::Manager::launch_test_service()'' < 2 ^ 64"
    by (simp_all add: sublist_code)
  from method_name_of_pretty_function[OF h] obtain pre mid rest suf where d:
    "''void test_service'' = pre @ '' '' @ mid" "CHR '' '' \<notin> set mid"
    "''Manager::launch_test_service()'' = rest @ ''('' @ suf" "CHR ''('' \<notin> set suf"
    "method_name ''void test_service::Manager::launch_test_service()''
       = Inr (mid @ ''::'' @ rest @ ''()'')"
    by blast
  have "pre @ CHR '' '' # mid = ''void'' @ CHR '' '' # ''test_service''"
    using d(1) by simp
  then have "pre = ''void'' \<and> mid = ''test_service''"
    by (rule split_last_unique_both) (use d(2) in simp_all)
  moreover have "rest @ CHR ''('' # suf = ''Manager::launch_test_service'' @ CHR ''('' # '')''"
    using d(3) by simp
  then have "rest = ''Manager::launch_test_service'' \<and> suf = '')''"
    by (rule split_last_unique_both) (use d(4) in simp_all)
  ultimately show ?thesis using h d(5) by simp
qed

section \<open>The slot and the lifecycle state\<close>

text \<open>
  C1. Start from the constructed Manager and let any sequence of launches and
  terminations each return. Then the slot \<open>running_service\<close> holds a service exactly
  when the state machine of the specification, run over the same sequence, is in
  \<open>Running\<close>; every call made so far was guarded (no \<open>registerService\<close> with the slot
  occupied, no \<open>unregisterService\<close> with the slot empty); and so is every call of a
  further launch or termination, whether it returns or is still in one of its loops
  after any number of iterations.
\<close>

theorem slot_guards_registration:
  assumes "run env ops (Manager env r) = Returned s"
  shows "has_value (running_service s) = (spec_state ops = Running) \<and>
         list_all guarded (trace s) \<and>
         list_all guarded (trace (state_of (perform env op s)))"
proof -
  have "has_value (running_service s) = (foldl spec_step Stopped ops = Running) \<and>
        list_all guarded (trace s)"
    by (rule run_invariant[OF assms]) (simp_all add: Manager_fields has_value_def)
  then show ?thesis by (simp add: spec_state_def perform_guarded)
qed

theorem slot_guards_registration_witness:
  "run scripted [Launch 3, Terminate 3] (Manager scripted script_retry)
     = Returned (state_of (run scripted [Launch 3, Terminate 3] (Manager scripted script_retry))) \<and>
   has_value (running_service
      (state_of (run scripted [Launch 3, Terminate 3] (Manager scripted script_retry))))
     = (spec_state [Launch 3, Terminate 3] = Running) \<and>
   list_all guarded
     (trace (state_of (run scripted [Launch 3, Terminate 3] (Manager scripted script_retry)))) \<and>
   list_all guarded
     (trace (state_of (perform scripted (Launch 3)
        (state_of (run scripted [Launch 3, Terminate 3] (Manager scripted script_retry))))))"
proof -
  have "returned (run scripted [Launch 3, Terminate 3] (Manager scripted script_retry))"
    by code_simp
  then have h: "run scripted [Launch 3, Terminate 3] (Manager scripted script_retry)
     = Returned (state_of (run scripted [Launch 3, Terminate 3] (Manager scripted script_retry)))"
    by (rule returned_state_of)
  show ?thesis
    by (rule conjI[OF h]) (rule slot_guards_registration[OF h])
qed

section \<open>The transitions of the Manager\<close>

lemma count_registrations:
  "length (filter is_registration (transition_events (Registered svc) svc True K J)) = 1"
  by (simp add: transition_events_def retries_def filter_failures_none Registered_def
        Built_def Polled_def)

lemma count_register_calls:
  "length (filter is_register (transition_events (Registered svc) svc True K J)) = K + 1"
  by (simp add: transition_events_def count_register_attempts Built_def
        polls_and_sleeps_no_register[OF polled_all(1)])

text \<open>
  C2, amended. A launch with the slot occupied returns, whatever the bound, having
  made no call at all: the trace, the runtime's state, the slot with its handle and
  the number of stubs are as they were (only the log has grown). A termination with
  the slot empty does the same and leaves the slot empty. Hence, when a launch from
  the empty slot has returned, a second launch returns with the slot still occupied by
  the same service and adds no call to those of the first: the calls of
  \<open>registerService\<close> of the two launches together are the \<open>K + 1\<close> attempts of the
  first, where \<open>K\<close> is the number of times the runtime refuses the registration, and
  exactly one of them is accepted.
\<close>

theorem idempotent_transitions:
  "(has_value (running_service s) \<longrightarrow>
      (\<exists>s'. launch_test_service env n s = Returned s' \<and> trace s' = trace s \<and>
            runtime s' = runtime s \<and> running_service s' = running_service s \<and>
            stubs_made s' = stubs_made s)) \<and>
   (\<not> has_value (running_service s) \<longrightarrow>
      (\<exists>s'. terminate_test_service env n s = Returned s' \<and> trace s' = trace s \<and>
            runtime s' = runtime s \<and> running_service s' = None \<and>
            stubs_made s' = stubs_made s)) \<and>
   (\<not> has_value (running_service s) \<and> launch_test_service env n s = Returned s1 \<longrightarrow>
      (\<exists>s2. launch_test_service env m s1 = Returned s2 \<and>
            has_value (running_service s2) \<and> running_service s2 = running_service s1 \<and>
            calls_since s s2 = calls_since s s1 \<and>
            length (filter is_registration (calls_since s s2)) = 1 \<and>
            (\<forall>K. fails_then_succeeds (register_op env (new_service s)) (nap env) K
                   (Runtime_get env (runtime s)) \<longrightarrow>
                 length (filter is_register (calls_since s s2)) = K + 1)))"
proof (intro conjI impI)
  assume "has_value (running_service s)"
  then show "\<exists>s'. launch_test_service env n s = Returned s' \<and> trace s' = trace s \<and>
            runtime s' = runtime s \<and> running_service s' = running_service s \<and>
            stubs_made s' = stubs_made s"
    by (simp add: launch_when_running)
next
  assume "\<not> has_value (running_service s)"
  then show "\<exists>s'. terminate_test_service env n s = Returned s' \<and> trace s' = trace s \<and>
            runtime s' = runtime s \<and> running_service s' = None \<and>
            stubs_made s' = stubs_made s"
    by (simp add: terminate_when_stopped has_value_def)
next
  assume a: "\<not> has_value (running_service s) \<and> launch_test_service env n s = Returned s1"
  then have stopped: "\<not> has_value (running_service s)" ..
  from stopped obtain K J where s1:
    "trace s1 = trace s @ map (\<lambda>e. Call e False)
        (transition_events (Registered (new_service s)) (new_service s) True K J)"
    "running_service s1 = Some (new_service s)"
    "fails_then_succeeds (register_op env (new_service s)) (nap env) K
       (Runtime_get env (runtime s))"
    using a by (cases rule: launch_cases[where n = n and env = env]) simp_all
  have attempts: "length (filter is_register (calls_since s s1)) = K' + 1"
    if "fails_then_succeeds (register_op env (new_service s)) (nap env) K'
          (Runtime_get env (runtime s))" for K'
  proof -
    have "K' = K" using that s1(3) by (rule fails_then_succeeds_unique)
    then show ?thesis
      using calls_since_append[OF s1(1)] by (simp add: count_register_calls)
  qed
  have c1: "calls_since s s1
      = transition_events (Registered (new_service s)) (new_service s) True K J"
    using s1(1) by (rule calls_since_append)
  let ?s2 = "ScopedFunctionLogger_dtor (METHOD_NAME env ''launch_test_service'')
       (LOG (Text ''Ignoring an attempt to launch - service is already launched.'')
          (ScopedFunctionLogger (METHOD_NAME env ''launch_test_service'') s1))"
  have running: "has_value (running_service s1)" using s1(2) by (simp add: has_value_def)
  then have "launch_test_service env m s1 = Returned ?s2" by (rule launch_when_running)
  moreover have "calls_since s ?s2 = calls_since s s1" by (simp add: calls_since_def)
  moreover have "running_service ?s2 = running_service s1" by simp
  ultimately show "\<exists>s2. launch_test_service env m s1 = Returned s2 \<and>
            has_value (running_service s2) \<and> running_service s2 = running_service s1 \<and>
            calls_since s s2 = calls_since s s1 \<and>
            length (filter is_registration (calls_since s s2)) = 1 \<and>
            (\<forall>K. fails_then_succeeds (register_op env (new_service s)) (nap env) K
                   (Runtime_get env (runtime s)) \<longrightarrow>
                 length (filter is_register (calls_since s s2)) = K + 1)"
    using running c1 count_registrations attempts by (intro exI[of _ ?s2]) simp
qed

theorem idempotent_transitions_witness:
  "has_value (running_service (running0 script_retry)) \<and>
   launch_test_service scripted 1 (running0 script_retry)
     = Returned (state_of (launch_test_service scripted 1 (running0 script_retry))) \<and>
   trace (state_of (launch_test_service scripted 1 (running0 script_retry)))
     = trace (running0 script_retry) \<and>
   \<not> has_value (running_service (stopped0 script_retry)) \<and>
   trace (state_of (terminate_test_service scripted 3 (stopped0 script_retry)))
     = trace (stopped0 script_retry) \<and>
   launch_test_service scripted 3 (stopped0 script_retry) = Returned (running0 script_retry) \<and>
   length (filter is_registration
      (calls_since (stopped0 script_retry)
         (state_of (launch_test_service scripted 1 (running0 script_retry))))) = 1"
proof -
  have hA: "has_value (running_service (running0 script_retry))"
    by (simp add: running0_service has_value_def)
  have hB: "\<not> has_value (running_service (stopped0 script_retry))"
    by (rule stopped0_empty)
  note A = idempotent_transitions[where s = "running0 script_retry" and env = scripted and n = 1]
  note B = idempotent_transitions[where s = "stopped0 script_retry" and env = scripted and n = 3
      and ?s1.0 = "running0 script_retry" and m = 1]
  from mp[OF conjunct1[OF A] hA] obtain s' where 1:
    "launch_test_service scripted 1 (running0 script_retry) = Returned s'"
    "trace s' = trace (running0 script_retry)"
    by blast
  from mp[OF conjunct1[OF conjunct2[OF B]] hB] obtain s'' where 2:
    "terminate_test_service scripted 3 (stopped0 script_retry) = Returned s''"
    "trace s'' = trace (stopped0 script_retry)"
    by blast
  from mp[OF conjunct2[OF conjunct2[OF B]] conjI[OF hB launch0_returns]] obtain s2 where 3:
    "launch_test_service scripted 1 (running0 script_retry) = Returned s2"
    "length (filter is_registration (calls_since (stopped0 script_retry) s2)) = 1"
    by blast
  show ?thesis
    using hA hB launch0_returns 1 2 3 by simp
qed

text \<open>
  C2 as first stated has two launches in sequence issue exactly one registration call.
  On the scripted runtime that refuses the registration twice, the first launch calls
  \<open>registerService\<close> three times before it returns, and the second launch adds
  nothing: the two launches together issue three registration calls.
\<close>

theorem two_launches_counterexample:
  "\<not> has_value (running_service (stopped0 script_retry)) \<and>
   launch_test_service scripted 3 (stopped0 script_retry) = Returned (running0 script_retry) \<and>
   returned (launch_test_service scripted 3 (running0 script_retry)) \<and>
   has_value (running_service (state_of (launch_test_service scripted 3 (running0 script_retry)))) \<and>
   calls_since (stopped0 script_retry)
       (state_of (launch_test_service scripted 3 (running0 script_retry)))
     = [RuntimeGet,
        RegisterService ''local'' ''test.TestService'' 0 ''test-service'' False,
        SleepFor 100,
        RegisterService ''local'' ''test.TestService'' 0 ''test-service'' False,
        SleepFor 100,
        RegisterService ''local'' ''test.TestService'' 0 ''test-service'' True,
        RuntimeGet,
        BuildProxy ''local'' ''test.TestService'' ''test-service'',
        IsAvailable (Proxy ''local'' ''test.TestService'' ''test-service'') False,
        SleepFor 100,
        IsAvailable (Proxy ''local'' ''test.TestService'' ''test-service'') True] \<and>
   length (filter is_register
      (calls_since (stopped0 script_retry)
         (state_of (launch_test_service scripted 3 (running0 script_retry))))) = 3"
proof -
  have 1: "returned (launch_test_service scripted 3 (running0 script_retry))"
    by code_simp
  have 2: "has_value (running_service
             (state_of (launch_test_service scripted 3 (running0 script_retry))))"
    by code_simp
  have 3: "calls_since (stopped0 script_retry)
       (state_of (launch_test_service scripted 3 (running0 script_retry)))
     = [RuntimeGet,
        RegisterService ''local'' ''test.TestService'' 0 ''test-service'' False,
        SleepFor 100,
        RegisterService ''local'' ''test.TestService'' 0 ''test-service'' False,
        SleepFor 100,
        RegisterService ''local'' ''test.TestService'' 0 ''test-service'' True,
        RuntimeGet,
        BuildProxy ''local'' ''test.TestService'' ''test-service'',
        IsAvailable (Proxy ''local'' ''test.TestService'' ''test-service'') False,
        SleepFor 100,
        IsAvailable (Proxy ''local'' ''test.TestService'' ''test-service'') True]"
    by code_simp
  have 4: "length (filter is_register
      (calls_since (stopped0 script_retry)
         (state_of (launch_test_service scripted 3 (running0 script_retry))))) = 3"
    unfolding 3 by simp
  show ?thesis
    by (intro conjI) (fact stopped0_empty launch0_returns 1 2 3 4)+
qed

text \<open>
  C3. Let the runtime, from the state in which \<open>register_service\<close> first tries it,
  refuse the registration \<open>K\<close> times, a sleep of \<open>RETRY_TIMEOUT\<close> after each refusal,
  and accept it at attempt \<open>K + 1\<close>. Then a launch from the empty slot, run with a
  bound above \<open>K\<close>, makes these calls: \<open>Runtime::get()\<close>, then \<open>K\<close> times a refused
  \<open>registerService\<close> followed by a sleep, then the accepted \<open>registerService\<close>, and
  then \<open>Runtime::get()\<close> and \<open>buildProxy\<close> of \<open>wait_service\<close>, after which it only polls
  and sleeps. In the whole run there are \<open>K + 1\<close> calls of \<open>registerService\<close>, with
  \<open>K\<close> sleeps among the attempts, and no exception leaves the launch. The same holds
  of \<open>unregisterService\<close> in a termination from an occupied slot.
\<close>

theorem retry_convergence:
  assumes "K < n"
  shows
   "(\<not> has_value (running_service s) \<and>
     fails_then_succeeds (register_op env (new_service s)) (nap env) K
       (Runtime_get env (runtime s)) \<longrightarrow>
       (\<exists>evs. calls_since s (state_of (launch_test_service env n s)) =
                RuntimeGet # retries (Registered (new_service s)) K @
                RuntimeGet # Built (new_service s) # evs \<and>
              list_all (\<lambda>e. is_poll e \<or> is_sleep e) evs) \<and>
       length (filter is_register
                 (calls_since s (state_of (launch_test_service env n s)))) = K + 1 \<and>
       length (filter is_sleep (retries (Registered (new_service s)) K)) = K \<and>
       (\<forall>e s'. launch_test_service env n s \<noteq> Threw e s')) \<and>
    (running_service s = Some svc \<and>
     fails_then_succeeds (unregister_op env svc) (nap env) K
       (Runtime_get env (runtime s)) \<longrightarrow>
       (\<exists>evs. calls_since s (state_of (terminate_test_service env n s)) =
                RuntimeGet # retries (Unregistered svc) K @ RuntimeGet # Built svc # evs \<and>
              list_all (\<lambda>e. is_poll e \<or> is_sleep e) evs) \<and>
       length (filter is_unregister
                 (calls_since s (state_of (terminate_test_service env n s)))) = K + 1 \<and>
       length (filter is_sleep (retries (Unregistered svc) K)) = K \<and>
       (\<forall>e s'. terminate_test_service env n s \<noteq> Threw e s'))"
proof (intro conjI impI)
  assume a: "\<not> has_value (running_service s) \<and>
     fails_then_succeeds (register_op env (new_service s)) (nap env) K
       (Runtime_get env (runtime s))"
  from launch_after_registration[OF conjunct1[OF a] conjunct2[OF a] assms]
  obtain evs where evs:
    "trace (state_of (launch_test_service env n s)) = trace s @ map (\<lambda>e. Call e False)
       (RuntimeGet # retries (Registered (new_service s)) K @
        RuntimeGet # Built (new_service s) # evs)"
    "list_all (\<lambda>e. is_poll e \<or> is_sleep e) evs"
    by blast
  have c: "calls_since s (state_of (launch_test_service env n s)) =
       RuntimeGet # retries (Registered (new_service s)) K @
       RuntimeGet # Built (new_service s) # evs"
    using evs(1) by (rule calls_since_append)
  show "\<exists>evs. calls_since s (state_of (launch_test_service env n s)) =
                RuntimeGet # retries (Registered (new_service s)) K @
                RuntimeGet # Built (new_service s) # evs \<and>
              list_all (\<lambda>e. is_poll e \<or> is_sleep e) evs"
    using c evs(2) by blast
  show "length (filter is_register
                 (calls_since s (state_of (launch_test_service env n s)))) = K + 1"
    unfolding c
    by (simp add: count_register_attempts polls_and_sleeps_no_register[OF evs(2)] Built_def)
next
  show "length (filter is_sleep (retries (Registered (new_service s)) K)) = K"
    by (rule count_retry_sleeps)
next
  show "\<forall>e s'. launch_test_service env n s \<noteq> Threw e s'"
    by (simp add: launch_no_throw)
next
  assume a: "running_service s = Some svc \<and>
     fails_then_succeeds (unregister_op env svc) (nap env) K (Runtime_get env (runtime s))"
  from terminate_after_unregistration[OF conjunct1[OF a] conjunct2[OF a] assms]
  obtain evs where evs:
    "trace (state_of (terminate_test_service env n s)) = trace s @ map (\<lambda>e. Call e True)
       (RuntimeGet # retries (Unregistered svc) K @ RuntimeGet # Built svc # evs)"
    "list_all (\<lambda>e. is_poll e \<or> is_sleep e) evs"
    by blast
  have c: "calls_since s (state_of (terminate_test_service env n s)) =
       RuntimeGet # retries (Unregistered svc) K @ RuntimeGet # Built svc # evs"
    using evs(1) by (rule calls_since_append)
  show "\<exists>evs. calls_since s (state_of (terminate_test_service env n s)) =
                RuntimeGet # retries (Unregistered svc) K @ RuntimeGet # Built svc # evs \<and>
              list_all (\<lambda>e. is_poll e \<or> is_sleep e) evs"
    using c evs(2) by blast
  show "length (filter is_unregister
                 (calls_since s (state_of (terminate_test_service env n s)))) = K + 1"
    unfolding c
    by (simp add: count_unregister_attempts polls_and_sleeps_no_unregister[OF evs(2)] Built_def)
next
  show "length (filter is_sleep (retries (Unregistered svc) K)) = K"
    by (rule count_retry_sleeps)
next
  show "\<forall>e s'. terminate_test_service env n s \<noteq> Threw e s'"
    by (simp add: terminate_no_throw)
qed

theorem retry_convergence_witness:
  "(2::nat) < 3 \<and>
   \<not> has_value (running_service (stopped0 script_retry)) \<and>
   fails_then_succeeds (register_op scripted (new_service (stopped0 script_retry))) (nap scripted) 2
     (Runtime_get scripted (runtime (stopped0 script_retry))) \<and>
   length (filter is_register
      (calls_since (stopped0 script_retry)
         (state_of (launch_test_service scripted 3 (stopped0 script_retry))))) = 2 + 1 \<and>
   (1::nat) < 3 \<and>
   running_service (running0 script_retry) = Some service0 \<and>
   fails_then_succeeds (unregister_op scripted service0) (nap scripted) 1
     (Runtime_get scripted (runtime (running0 script_retry))) \<and>
   length (filter is_unregister
      (calls_since (running0 script_retry)
         (state_of (terminate_test_service scripted 3 (running0 script_retry))))) = 1 + 1"
proof -
  have n2: "(2::nat) < 3" and n1: "(1::nat) < 3" by simp_all
  have hB: "\<not> has_value (running_service (stopped0 script_retry))"
    by (rule stopped0_empty)
  have fr: "fails_then_succeeds (register_op scripted (new_service (stopped0 script_retry)))
      (nap scripted) 2 (Runtime_get scripted (runtime (stopped0 script_retry)))"
    by code_simp
  have fu: "fails_then_succeeds (unregister_op scripted service0) (nap scripted) 1
     (Runtime_get scripted (runtime (running0 script_retry)))"
    by code_simp
  note A = retry_convergence[OF n2, where s = "stopped0 script_retry" and env = scripted]
  note B = retry_convergence[OF n1, where s = "running0 script_retry" and env = scripted
      and svc = service0]
  from mp[OF conjunct1[OF A] conjI[OF hB fr]] have 1:
    "length (filter is_register
      (calls_since (stopped0 script_retry)
         (state_of (launch_test_service scripted 3 (stopped0 script_retry))))) = 2 + 1"
    by blast
  from mp[OF conjunct2[OF B] conjI[OF running0_service fu]] have 2:
    "length (filter is_unregister
      (calls_since (running0 script_retry)
         (state_of (terminate_test_service scripted 3 (running0 script_retry))))) = 1 + 1"
    by blast
  show ?thesis
    by (intro conjI) (fact n2 hB fr 1 n1 running0_service fu 2)+
qed

lemma last_transition_events:
  "last (transition_events ev svc tba K J) = IsAvailable (proxy_of svc) tba"
  by (simp add: transition_events_def retries_def Polled_def)

lemma launch_gated:
  assumes "\<not> has_value (running_service s)"
  shows
   "(\<forall>s'. launch_test_service env n s = Returned s' \<longrightarrow>
        (\<exists>K J. calls_since s s' =
                 RuntimeGet # retries (Registered (new_service s)) K @
                 RuntimeGet # Built (new_service s) #
                 retries (Polled (proxy_of (new_service s)) True) J) \<and>
        last (trace s') = Call (IsAvailable (proxy_of (new_service s)) True) False \<and>
        running_service s' = Some (new_service s)) \<and>
    (\<forall>s'. launch_test_service env n s = Blocked s' \<longrightarrow> running_service s' = None) \<and>
    (fails_then_succeeds (register_op env (new_service s)) (nap env) K
       (Runtime_get env (runtime s)) \<and>
     keeps_failing (poll env (proxy_of (new_service s)) True) (nap env) n
       (probe_built env (new_service s)
          (state_after (register_op env (new_service s)) (nap env) K
             (Runtime_get env (runtime s)))) \<longrightarrow>
     \<not> returned (launch_test_service env n s))"
  using assms
proof (cases rule: launch_cases[where n = n and env = env])
  case (returned K' J' s')
  have c: "calls_since s s' =
      transition_events (Registered (new_service s)) (new_service s) True K' J'"
    using returned(6) by (rule calls_since_append)
  have l: "last (trace s') = Call (IsAvailable (proxy_of (new_service s)) True) False"
    unfolding returned(6)
    by (simp add: transition_events_def retries_def Polled_def)
  have "\<not> (fails_then_succeeds (register_op env (new_service s)) (nap env) K
       (Runtime_get env (runtime s)) \<and>
     keeps_failing (poll env (proxy_of (new_service s)) True) (nap env) n
       (probe_built env (new_service s)
          (state_after (register_op env (new_service s)) (nap env) K
             (Runtime_get env (runtime s)))))"
  proof
    assume a: "fails_then_succeeds (register_op env (new_service s)) (nap env) K
       (Runtime_get env (runtime s)) \<and>
     keeps_failing (poll env (proxy_of (new_service s)) True) (nap env) n
       (probe_built env (new_service s)
          (state_after (register_op env (new_service s)) (nap env) K
             (Runtime_get env (runtime s))))"
    have K: "K' = K"
      using returned(3) conjunct1[OF a] by (rule fails_then_succeeds_unique)
    from keeps_failing_not_succeeds[OF conjunct2[OF a] returned(2)] returned(4)
    show False unfolding K by simp
  qed
  with returned(5,7) c l show ?thesis
    by (auto simp: transition_events_def)
next
  case (waiting K' s')
  then show ?thesis by simp
next
  case (registering s')
  then show ?thesis by simp
qed

text \<open>
  C4. Consider a launch from the empty slot. If it returns, its calls end with the
  polls of the proxy: \<open>J\<close> polls that report unavailable, a sleep after each, and a
  last poll that reports available, which is the last call made (no sleep follows
  it); and the slot then holds the new service. As long as the launch is in one of
  its loops the slot is empty. If registration succeeds but the first \<open>n\<close> polls
  all report unavailable, the launch has not returned after \<open>n\<close> iterations, for
  every \<open>n\<close>. And when registration succeeds after \<open>K\<close> refusals and the proxy
  reports available after \<open>J\<close> polls that did not, the launch does return, for every
  bound above both, with exactly these calls.
\<close>

theorem availability_gating:
  assumes "\<not> has_value (running_service s)"
  shows
   "(\<forall>s'. launch_test_service env n s = Returned s' \<longrightarrow>
        (\<exists>K J. calls_since s s' =
                 RuntimeGet # retries (Registered (new_service s)) K @
                 RuntimeGet # Built (new_service s) #
                 retries (Polled (proxy_of (new_service s)) True) J) \<and>
        last (trace s') = Call (IsAvailable (proxy_of (new_service s)) True) False \<and>
        running_service s' = Some (new_service s)) \<and>
    (\<forall>s'. launch_test_service env n s = Blocked s' \<longrightarrow> running_service s' = None) \<and>
    (fails_then_succeeds (register_op env (new_service s)) (nap env) K
       (Runtime_get env (runtime s)) \<and>
     keeps_failing (poll env (proxy_of (new_service s)) True) (nap env) n
       (probe_built env (new_service s)
          (state_after (register_op env (new_service s)) (nap env) K
             (Runtime_get env (runtime s)))) \<longrightarrow>
     \<not> returned (launch_test_service env n s)) \<and>
    (K < n \<and> J < n \<and>
     fails_then_succeeds (register_op env (new_service s)) (nap env) K
       (Runtime_get env (runtime s)) \<and>
     fails_then_succeeds (poll env (proxy_of (new_service s)) True) (nap env) J
       (probe_built env (new_service s)
          (state_after (register_op env (new_service s)) (nap env) K
             (Runtime_get env (runtime s)))) \<longrightarrow>
     (\<exists>s'. launch_test_service env n s = Returned s' \<and>
           calls_since s s' =
             RuntimeGet # retries (Registered (new_service s)) K @
             RuntimeGet # Built (new_service s) #
             retries (Polled (proxy_of (new_service s)) True) J \<and>
           running_service s' = Some (new_service s)))"
proof -
  have "K < n \<and> J < n \<and>
     fails_then_succeeds (register_op env (new_service s)) (nap env) K
       (Runtime_get env (runtime s)) \<and>
     fails_then_succeeds (poll env (proxy_of (new_service s)) True) (nap env) J
       (probe_built env (new_service s)
          (state_after (register_op env (new_service s)) (nap env) K
             (Runtime_get env (runtime s)))) \<longrightarrow>
     (\<exists>s'. launch_test_service env n s = Returned s' \<and>
           calls_since s s' =
             RuntimeGet # retries (Registered (new_service s)) K @
             RuntimeGet # Built (new_service s) #
             retries (Polled (proxy_of (new_service s)) True) J \<and>
           running_service s' = Some (new_service s))"
  proof
    assume a: "K < n \<and> J < n \<and>
     fails_then_succeeds (register_op env (new_service s)) (nap env) K
       (Runtime_get env (runtime s)) \<and>
     fails_then_succeeds (poll env (proxy_of (new_service s)) True) (nap env) J
       (probe_built env (new_service s)
          (state_after (register_op env (new_service s)) (nap env) K
             (Runtime_get env (runtime s))))"
    then have h: "K < n" "J < n"
      "fails_then_succeeds (register_op env (new_service s)) (nap env) K
         (Runtime_get env (runtime s))"
      "fails_then_succeeds (poll env (proxy_of (new_service s)) True) (nap env) J
         (probe_built env (new_service s)
            (state_after (register_op env (new_service s)) (nap env) K
               (Runtime_get env (runtime s))))"
      by simp_all
    from launch_returns[OF assms h(3) h(1) h(4) h(2)] obtain s' where s':
      "launch_test_service env n s = Returned s'"
      "trace s' = trace s @ map (\<lambda>e. Call e False)
         (transition_events (Registered (new_service s)) (new_service s) True K J)"
      "running_service s' = Some (new_service s)"
      by blast
    from calls_since_append[OF s'(2)] s'(1,3)
    show "\<exists>s'. launch_test_service env n s = Returned s' \<and>
           calls_since s s' =
             RuntimeGet # retries (Registered (new_service s)) K @
             RuntimeGet # Built (new_service s) #
             retries (Polled (proxy_of (new_service s)) True) J \<and>
           running_service s' = Some (new_service s)"
      by (simp add: transition_events_def)
  qed
  with launch_gated[OF assms, of env n K] show ?thesis by blast
qed

theorem availability_gating_witness:
  "\<not> has_value (running_service (stopped0 script_retry)) \<and>
   (2::nat) < 3 \<and> (1::nat) < 3 \<and>
   fails_then_succeeds (register_op scripted (new_service (stopped0 script_retry))) (nap scripted) 2
     (Runtime_get scripted (runtime (stopped0 script_retry))) \<and>
   fails_then_succeeds (poll scripted (proxy_of (new_service (stopped0 script_retry))) True)
     (nap scripted) 1
     (probe_built scripted (new_service (stopped0 script_retry))
        (state_after (register_op scripted (new_service (stopped0 script_retry))) (nap scripted) 2
           (Runtime_get scripted (runtime (stopped0 script_retry))))) \<and>
   launch_test_service scripted 3 (stopped0 script_retry) = Returned (running0 script_retry) \<and>
   calls_since (stopped0 script_retry) (running0 script_retry) =
     RuntimeGet # retries (Registered (new_service (stopped0 script_retry))) 2 @
     RuntimeGet # Built (new_service (stopped0 script_retry)) #
     retries (Polled (proxy_of (new_service (stopped0 script_retry))) True) 1 \<and>
   last (trace (running0 script_retry))
     = Call (IsAvailable (proxy_of (new_service (stopped0 script_retry))) True) False \<and>
   running_service (running0 script_retry) = Some (new_service (stopped0 script_retry)) \<and>
   \<not> has_value (running_service (stopped0 script_silent)) \<and>
   fails_then_succeeds (register_op scripted (new_service (stopped0 script_silent))) (nap scripted) 0
     (Runtime_get scripted (runtime (stopped0 script_silent))) \<and>
   keeps_failing (poll scripted (proxy_of (new_service (stopped0 script_silent))) True)
     (nap scripted) 3
     (probe_built scripted (new_service (stopped0 script_silent))
        (state_after (register_op scripted (new_service (stopped0 script_silent))) (nap scripted) 0
           (Runtime_get scripted (runtime (stopped0 script_silent))))) \<and>
   \<not> returned (launch_test_service scripted 3 (stopped0 script_silent))"
proof -
  have hA: "\<not> has_value (running_service (stopped0 script_retry))"
    and hB: "\<not> has_value (running_service (stopped0 script_silent))"
    by (rule stopped0_empty)+
  have n2: "(2::nat) < 3" and n1: "(1::nat) < 3" by simp_all
  have fa: "fails_then_succeeds (register_op scripted (new_service (stopped0 script_retry)))
      (nap scripted) 2 (Runtime_get scripted (runtime (stopped0 script_retry)))"
    by code_simp
  have fp: "fails_then_succeeds (poll scripted (proxy_of (new_service (stopped0 script_retry))) True)
     (nap scripted) 1
     (probe_built scripted (new_service (stopped0 script_retry))
        (state_after (register_op scripted (new_service (stopped0 script_retry))) (nap scripted) 2
           (Runtime_get scripted (runtime (stopped0 script_retry)))))"
    by code_simp
  have fr: "fails_then_succeeds (register_op scripted (new_service (stopped0 script_silent)))
      (nap scripted) 0 (Runtime_get scripted (runtime (stopped0 script_silent)))"
    by code_simp
  have kf: "keeps_failing (poll scripted (proxy_of (new_service (stopped0 script_silent))) True)
     (nap scripted) 3
     (probe_built scripted (new_service (stopped0 script_silent))
        (state_after (register_op scripted (new_service (stopped0 script_silent))) (nap scripted) 0
           (Runtime_get scripted (runtime (stopped0 script_silent)))))"
    by code_simp
  note A = availability_gating[OF hA, where env = scripted and n = 3 and K = 2 and J = 1]
  note B = availability_gating[OF hB, where env = scripted and n = 3 and K = 0]
  from conjunct1[OF A] launch0_returns have 1:
    "last (trace (running0 script_retry))
       = Call (IsAvailable (proxy_of (new_service (stopped0 script_retry))) True) False"
    "running_service (running0 script_retry) = Some (new_service (stopped0 script_retry))"
    by blast+
  from mp[OF conjunct2[OF conjunct2[OF conjunct2[OF A]]]
         conjI[OF n2 conjI[OF n1 conjI[OF fa fp]]]] launch0_returns
  have 2: "calls_since (stopped0 script_retry) (running0 script_retry) =
     RuntimeGet # retries (Registered (new_service (stopped0 script_retry))) 2 @
     RuntimeGet # Built (new_service (stopped0 script_retry)) #
     retries (Polled (proxy_of (new_service (stopped0 script_retry))) True) 1"
    by auto
  from mp[OF conjunct1[OF conjunct2[OF conjunct2[OF B]]] conjI[OF fr kf]] have 3:
    "\<not> returned (launch_test_service scripted 3 (stopped0 script_silent))" .
  show ?thesis
    by (intro conjI) (fact hA n2 n1 fa fp launch0_returns 2 1 hB fr kf 3)+
qed

text \<open>
  C5. Consider a termination with the slot holding \<open>svc\<close>. If it returns, its calls
  were, in this order: \<open>Runtime::get()\<close>; \<open>unregisterService\<close> on the domain, interface
  and instance of \<open>svc\<close>, refused \<open>K\<close> times with a sleep after each refusal and then
  accepted; \<open>Runtime::get()\<close> and \<open>buildProxy\<close>; \<open>J\<close> polls reporting available, a
  sleep after each, and a last poll reporting unavailable; every one of these calls
  was made with the slot still occupied, and on return the slot is empty. While the
  termination is in one of its loops the slot still holds \<open>svc\<close>; no exception leaves
  it; and it does return, with exactly these calls, when the runtime accepts the
  unregistration after \<open>K\<close> refusals and reports unavailable after \<open>J\<close> polls, the
  bound being above both.
\<close>

theorem terminate_in_order:
  assumes "running_service s = Some svc"
  shows
   "(\<forall>s'. terminate_test_service env n s = Returned s' \<longrightarrow>
        (\<exists>K J. trace s' = trace s @ map (\<lambda>e. Call e True)
                  (RuntimeGet # retries (Unregistered svc) K @
                   RuntimeGet # Built svc # retries (Polled (proxy_of svc) False) J)) \<and>
        running_service s' = None) \<and>
    (\<forall>s'. terminate_test_service env n s = Blocked s' \<longrightarrow> running_service s' = Some svc) \<and>
    (\<forall>e s'. terminate_test_service env n s \<noteq> Threw e s') \<and>
    (K < n \<and> J < n \<and>
     fails_then_succeeds (unregister_op env svc) (nap env) K (Runtime_get env (runtime s)) \<and>
     fails_then_succeeds (poll env (proxy_of svc) False) (nap env) J
       (probe_built env svc
          (state_after (unregister_op env svc) (nap env) K (Runtime_get env (runtime s)))) \<longrightarrow>
     (\<exists>s'. terminate_test_service env n s = Returned s' \<and>
           trace s' = trace s @ map (\<lambda>e. Call e True)
             (RuntimeGet # retries (Unregistered svc) K @
              RuntimeGet # Built svc # retries (Polled (proxy_of svc) False) J)))"
proof (intro conjI allI impI)
  fix s' assume r: "terminate_test_service env n s = Returned s'"
  from assms r show "\<exists>K J. trace s' = trace s @ map (\<lambda>e. Call e True)
                  (RuntimeGet # retries (Unregistered svc) K @
                   RuntimeGet # Built svc # retries (Polled (proxy_of svc) False) J)"
    by (cases rule: terminate_cases[where n = n and env = env])
       (auto simp: transition_events_def)
  from assms r show "running_service s' = None"
    by (cases rule: terminate_cases[where n = n and env = env]) auto
next
  fix s' assume r: "terminate_test_service env n s = Blocked s'"
  from assms r show "running_service s' = Some svc"
    by (cases rule: terminate_cases[where n = n and env = env]) auto
next
  fix e s' show "terminate_test_service env n s \<noteq> Threw e s'"
    by (rule terminate_no_throw)
next
  assume a: "K < n \<and> J < n \<and>
     fails_then_succeeds (unregister_op env svc) (nap env) K (Runtime_get env (runtime s)) \<and>
     fails_then_succeeds (poll env (proxy_of svc) False) (nap env) J
       (probe_built env svc
          (state_after (unregister_op env svc) (nap env) K (Runtime_get env (runtime s))))"
  then have h: "K < n" "J < n"
     "fails_then_succeeds (unregister_op env svc) (nap env) K (Runtime_get env (runtime s))"
     "fails_then_succeeds (poll env (proxy_of svc) False) (nap env) J
       (probe_built env svc
          (state_after (unregister_op env svc) (nap env) K (Runtime_get env (runtime s))))"
    by simp_all
  from terminate_returns[OF assms h(3) h(1) h(4) h(2)]
  show "\<exists>s'. terminate_test_service env n s = Returned s' \<and>
           trace s' = trace s @ map (\<lambda>e. Call e True)
             (RuntimeGet # retries (Unregistered svc) K @
              RuntimeGet # Built svc # retries (Polled (proxy_of svc) False) J)"
    by (auto simp: transition_events_def)
qed

theorem terminate_in_order_witness:
  "running_service (running0 script_retry) = Some service0 \<and>
   (1::nat) < 3 \<and>
   fails_then_succeeds (unregister_op scripted service0) (nap scripted) 1
     (Runtime_get scripted (runtime (running0 script_retry))) \<and>
   fails_then_succeeds (poll scripted (proxy_of service0) False) (nap scripted) 1
     (probe_built scripted service0
        (state_after (unregister_op scripted service0) (nap scripted) 1
           (Runtime_get scripted (runtime (running0 script_retry))))) \<and>
   returned (terminate_test_service scripted 3 (running0 script_retry)) \<and>
   running_service (state_of (terminate_test_service scripted 3 (running0 script_retry))) = None \<and>
   trace (state_of (terminate_test_service scripted 3 (running0 script_retry)))
     = trace (running0 script_retry) @ map (\<lambda>e. Call e True)
         (RuntimeGet # retries (Unregistered service0) 1 @
          RuntimeGet # Built service0 # retries (Polled (proxy_of service0) False) 1)"
proof -
  have n1: "(1::nat) < 3" by simp
  have fu: "fails_then_succeeds (unregister_op scripted service0) (nap scripted) 1
     (Runtime_get scripted (runtime (running0 script_retry)))"
    by code_simp
  have fp: "fails_then_succeeds (poll scripted (proxy_of service0) False) (nap scripted) 1
     (probe_built scripted service0
        (state_after (unregister_op scripted service0) (nap scripted) 1
           (Runtime_get scripted (runtime (running0 script_retry)))))"
    by code_simp
  note T = terminate_in_order[OF running0_service, where env = scripted and n = 3
      and K = 1 and J = 1]
  from mp[OF conjunct2[OF conjunct2[OF conjunct2[OF T]]] conjI[OF n1 conjI[OF n1 conjI[OF fu fp]]]]
  obtain s' where s': "terminate_test_service scripted 3 (running0 script_retry) = Returned s'"
    "trace s' = trace (running0 script_retry) @ map (\<lambda>e. Call e True)
         (RuntimeGet # retries (Unregistered service0) 1 @
          RuntimeGet # Built service0 # retries (Polled (proxy_of service0) False) 1)"
    by blast
  from conjunct1[OF T] s'(1) have "running_service s' = None" by blast
  with s' show ?thesis
    using running0_service n1 fu fp by simp
qed

lemma failures_pos: "0 < n \<Longrightarrow> \<exists>evs. failures ev n = ev False # evs"
  by (cases n) (simp_all add: failures_Suc)

lemma retries_head: "\<exists>ok evs. retries ev K = ev ok # evs"
  by (cases K) (auto simp: retries_0 retries_Suc)

lemma retries_member: "ev True \<in> set (retries ev K)"
  by (simp add: retries_def)

lemma routed_simps:
  "routed service (Registered service ok)"
  "routed service (Unregistered service ok)"
  "routed service (Built service)"
  "routed service (Polled (proxy_of service) tba ok)"
  "routed service RuntimeGet"
  "routed service (SleepFor ms)"
  by (simp_all add: Registered_def Unregistered_def Built_def Polled_def proxy_of_def)

lemma register_service_trace:
  obtains evs where
    "trace (state_of (register_service env n service s))
       = trace s @ map (\<lambda>e. Call e (has_value (running_service s))) (RuntimeGet # evs)"
    and "list_all (routed service) evs"
    and "0 < n \<longrightarrow> (\<exists>ok rest. evs = Registered service ok # rest)"
proof (cases rule: register_service_cases[where n = n and env = env and service = service and s = s])
  case (returned K s')
  show ?thesis
    using returned(3,4) retries_head[of "Registered service" K]
    by (intro that[of "retries (Registered service) K"])
       (simp_all add: extends_def retries_all routed_simps)
next
  case (blocked s')
  show ?thesis
    using blocked(2,3) failures_pos[of n "Registered service"]
    by (intro that[of "failures (Registered service) n"])
       (auto simp: extends_def failures_all routed_simps)
qed

lemma unregister_service_trace:
  obtains evs where
    "trace (state_of (unregister_service env n service s))
       = trace s @ map (\<lambda>e. Call e (has_value (running_service s))) (RuntimeGet # evs)"
    and "list_all (routed service) evs"
    and "0 < n \<longrightarrow> (\<exists>ok rest. evs = Unregistered service ok # rest)"
proof (cases rule: unregister_service_cases[where n = n and env = env and service = service and s = s])
  case (returned K s')
  show ?thesis
    using returned(3,4) retries_head[of "Unregistered service" K]
    by (intro that[of "retries (Unregistered service) K"])
       (simp_all add: extends_def retries_all routed_simps)
next
  case (blocked s')
  show ?thesis
    using blocked(2,3) failures_pos[of n "Unregistered service"]
    by (intro that[of "failures (Unregistered service) n"])
       (auto simp: extends_def failures_all routed_simps)
qed

lemma wait_service_trace:
  obtains evs where
    "trace (state_of (wait_service env n service tba s))
       = trace s @ map (\<lambda>e. Call e (has_value (running_service s)))
           (RuntimeGet # Built service # evs)"
    and "list_all (routed service) evs"
    and "0 < n \<longrightarrow> (\<exists>ok rest. evs = Polled (proxy_of service) tba ok # rest)"
proof (cases rule: wait_service_cases[where n = n and env = env and service = service
         and s = s and tba = tba])
  case (returned J s')
  show ?thesis
    using returned(3,4) retries_head[of "Polled (proxy_of service) tba" J]
    by (intro that[of "retries (Polled (proxy_of service) tba) J"])
       (simp_all add: extends_def retries_all routed_simps)
next
  case (blocked s')
  show ?thesis
    using blocked(2,3) failures_pos[of n "Polled (proxy_of service) tba"]
    by (intro that[of "failures (Polled (proxy_of service) tba) n"])
       (auto simp: extends_def failures_all routed_simps)
qed

text \<open>
  C7. Every call of \<open>register_service\<close>, \<open>unregister_service\<close> and \<open>wait_service\<close> on
  a service is routed from that service: \<open>registerService\<close> gets its domain,
  instance, handle and connection, \<open>unregisterService\<close> its domain, interface and
  instance, \<open>buildProxy\<close> its domain, instance and connection, and the proxy polled is
  the one so built; and these calls are made (the first two and the poll as soon as
  the loop is entered). The same holds of every call of a launch, for the service it
  creates from the four constants, and of every call of a termination, for the
  service in the slot.
\<close>

theorem identity_routing:
  "(\<exists>evs. trace (state_of (register_service env n service s))
            = trace s @ map (\<lambda>e. Call e (has_value (running_service s))) evs \<and>
          list_all (routed service) evs \<and>
          (0 < n \<longrightarrow>
             (\<exists>ok. RegisterService (domain (meta service)) (instance (meta service))
                     (handle service) (connection (meta service)) ok \<in> set evs))) \<and>
   (\<exists>evs. trace (state_of (unregister_service env n service s))
            = trace s @ map (\<lambda>e. Call e (has_value (running_service s))) evs \<and>
          list_all (routed service) evs \<and>
          (0 < n \<longrightarrow>
             (\<exists>ok. UnregisterService (domain (meta service)) (interface (meta service))
                     (instance (meta service)) ok \<in> set evs))) \<and>
   (\<exists>evs. trace (state_of (wait_service env n service to_be_available s))
            = trace s @ map (\<lambda>e. Call e (has_value (running_service s))) evs \<and>
          list_all (routed service) evs \<and>
          BuildProxy (domain (meta service)) (instance (meta service))
            (connection (meta service)) \<in> set evs \<and>
          (0 < n \<longrightarrow>
             (\<exists>a. IsAvailable (Proxy (domain (meta service)) (instance (meta service))
                                 (connection (meta service))) a \<in> set evs))) \<and>
   (\<not> has_value (running_service s) \<longrightarrow>
      (\<exists>evs. trace (state_of (launch_test_service env n s))
               = trace s @ map (\<lambda>e. Call e False) evs \<and>
             list_all (routed (new_service s)) evs)) \<and>
   (running_service s = Some svc \<longrightarrow>
      (\<exists>evs. trace (state_of (terminate_test_service env n s))
               = trace s @ map (\<lambda>e. Call e True) evs \<and>
             list_all (routed svc) evs)) \<and>
   new_service s =
     \<lparr>meta = \<lparr>domain = SERVICE_DOMAIN, instance = SERVICE_INSTANCE,
              interface = SERVICE_INTERFACE, connection = SERVICE_CONNECTION\<rparr>,
      handle = stubs_made s\<rparr>"
proof (intro conjI impI)
  obtain evs where evs:
    "trace (state_of (register_service env n service s))
       = trace s @ map (\<lambda>e. Call e (has_value (running_service s))) (RuntimeGet # evs)"
    "list_all (routed service) evs"
    "0 < n \<longrightarrow> (\<exists>ok rest. evs = Registered service ok # rest)"
    by (rule register_service_trace[where env = env and n = n and service = service and s = s])
  show "\<exists>evs. trace (state_of (register_service env n service s))
            = trace s @ map (\<lambda>e. Call e (has_value (running_service s))) evs \<and>
          list_all (routed service) evs \<and>
          (0 < n \<longrightarrow>
             (\<exists>ok. RegisterService (domain (meta service)) (instance (meta service))
                     (handle service) (connection (meta service)) ok \<in> set evs))"
    using evs by (intro exI[of _ "RuntimeGet # evs"]) (auto simp: Registered_def)
next
  obtain evs where evs:
    "trace (state_of (unregister_service env n service s))
       = trace s @ map (\<lambda>e. Call e (has_value (running_service s))) (RuntimeGet # evs)"
    "list_all (routed service) evs"
    "0 < n \<longrightarrow> (\<exists>ok rest. evs = Unregistered service ok # rest)"
    by (rule unregister_service_trace[where env = env and n = n and service = service and s = s])
  show "\<exists>evs. trace (state_of (unregister_service env n service s))
            = trace s @ map (\<lambda>e. Call e (has_value (running_service s))) evs \<and>
          list_all (routed service) evs \<and>
          (0 < n \<longrightarrow>
             (\<exists>ok. UnregisterService (domain (meta service)) (interface (meta service))
                     (instance (meta service)) ok \<in> set evs))"
    using evs by (intro exI[of _ "RuntimeGet # evs"]) (auto simp: Unregistered_def)
next
  obtain evs where evs:
    "trace (state_of (wait_service env n service to_be_available s))
       = trace s @ map (\<lambda>e. Call e (has_value (running_service s)))
           (RuntimeGet # Built service # evs)"
    "list_all (routed service) evs"
    "0 < n \<longrightarrow> (\<exists>ok rest. evs = Polled (proxy_of service) to_be_available ok # rest)"
    by (rule wait_service_trace[where env = env and n = n and service = service and s = s and tba = to_be_available])
  show "\<exists>evs. trace (state_of (wait_service env n service to_be_available s))
            = trace s @ map (\<lambda>e. Call e (has_value (running_service s))) evs \<and>
          list_all (routed service) evs \<and>
          BuildProxy (domain (meta service)) (instance (meta service))
            (connection (meta service)) \<in> set evs \<and>
          (0 < n \<longrightarrow>
             (\<exists>a. IsAvailable (Proxy (domain (meta service)) (instance (meta service))
                                 (connection (meta service))) a \<in> set evs))"
  proof (intro exI[of _ "RuntimeGet # Built service # evs"] conjI impI)
    show "trace (state_of (wait_service env n service to_be_available s))
            = trace s @ map (\<lambda>e. Call e (has_value (running_service s)))
                (RuntimeGet # Built service # evs)"
      by (rule evs(1))
    show "list_all (routed service) (RuntimeGet # Built service # evs)"
      using evs(2) by (simp add: routed_simps)
    show "BuildProxy (domain (meta service)) (instance (meta service))
            (connection (meta service)) \<in> set (RuntimeGet # Built service # evs)"
      by (simp add: Built_def)
    assume "0 < n"
    with evs(3) obtain ok rest where "evs = Polled (proxy_of service) to_be_available ok # rest"
      by blast
    then have "IsAvailable (Proxy (domain (meta service)) (instance (meta service))
                 (connection (meta service))) (ok = to_be_available)
               \<in> set (RuntimeGet # Built service # evs)"
      by (simp add: Polled_def proxy_of_def)
    then show "\<exists>a. IsAvailable (Proxy (domain (meta service)) (instance (meta service))
                 (connection (meta service))) a \<in> set (RuntimeGet # Built service # evs)"
      by (rule exI)
  qed
next
  assume "\<not> has_value (running_service s)"
  then show "\<exists>evs. trace (state_of (launch_test_service env n s))
               = trace s @ map (\<lambda>e. Call e False) evs \<and>
             list_all (routed (new_service s)) evs"
    by (rule launch_trace) (rule routed_simps)+
next
  assume "running_service s = Some svc"
  then show "\<exists>evs. trace (state_of (terminate_test_service env n s))
               = trace s @ map (\<lambda>e. Call e True) evs \<and>
             list_all (routed svc) evs"
    by (rule terminate_trace) (rule routed_simps)+
next
  show "new_service s =
     \<lparr>meta = \<lparr>domain = SERVICE_DOMAIN, instance = SERVICE_INSTANCE,
              interface = SERVICE_INTERFACE, connection = SERVICE_CONNECTION\<rparr>,
      handle = stubs_made s\<rparr>"
    by (simp add: new_service_def create_service_def Let_def)
qed

theorem identity_routing_witness:
  "(0::nat) < 3 \<and>
   (\<exists>evs ok. trace (state_of (register_service scripted 3 service0 (stopped0 script_retry)))
            = trace (stopped0 script_retry) @
              map (\<lambda>e. Call e (has_value (running_service (stopped0 script_retry)))) evs \<and>
          list_all (routed service0) evs \<and>
          RegisterService (domain (meta service0)) (instance (meta service0))
            (handle service0) (connection (meta service0)) ok \<in> set evs) \<and>
   \<not> has_value (running_service (stopped0 script_retry)) \<and>
   (\<exists>evs. trace (state_of (launch_test_service scripted 3 (stopped0 script_retry)))
            = trace (stopped0 script_retry) @ map (\<lambda>e. Call e False) evs \<and>
          list_all (routed (new_service (stopped0 script_retry))) evs) \<and>
   running_service (running0 script_retry) = Some service0 \<and>
   (\<exists>evs. trace (state_of (terminate_test_service scripted 3 (running0 script_retry)))
            = trace (running0 script_retry) @ map (\<lambda>e. Call e True) evs \<and>
          list_all (routed service0) evs)"
proof -
  have n: "(0::nat) < 3" by simp
  have hB: "\<not> has_value (running_service (stopped0 script_retry))"
    by (rule stopped0_empty)
  note A = identity_routing[where s = "stopped0 script_retry" and env = scripted and n = 3
      and service = service0]
  note B = identity_routing[where s = "running0 script_retry" and env = scripted and n = 3
      and svc = service0]
  from conjunct1[OF A] n have 1:
    "\<exists>evs ok. trace (state_of (register_service scripted 3 service0 (stopped0 script_retry)))
            = trace (stopped0 script_retry) @
              map (\<lambda>e. Call e (has_value (running_service (stopped0 script_retry)))) evs \<and>
          list_all (routed service0) evs \<and>
          RegisterService (domain (meta service0)) (instance (meta service0))
            (handle service0) (connection (meta service0)) ok \<in> set evs"
    by blast
  note 2 = mp[OF conjunct1[OF conjunct2[OF conjunct2[OF conjunct2[OF A]]]] hB]
  note 3 = mp[OF conjunct1[OF conjunct2[OF conjunct2[OF conjunct2[OF conjunct2[OF B]]]]]
      running0_service]
  show ?thesis
    by (intro conjI) (fact n 1 hB 2 running0_service 3)+
qed

lemma first_attempt_succeeds:
  assumes "fails_then_succeeds op pause K r" and "fst (op r)"
  shows "K = 0"
  using assms(1) by (rule fails_then_succeeds_unique) (simp add: assms(2))

lemma first_attempt_not_failing:
  assumes "keeps_failing op pause n r" and "0 < n"
  shows "\<not> fst (op r)"
  using keeps_failing_not_succeeds[OF assms, of ] by simp

lemma calls_since_record_call:
  "calls_since s (record_call e (s\<lparr>runtime := r\<rparr>)) = [e]"
  by (simp add: calls_since_def record_call_def)

lemma register_loop_first:
  assumes "0 < n"
    and "fst (registerService env (domain (meta service)) (instance (meta service))
            (handle service) (connection (meta service)) (runtime s))"
  shows "\<exists>s'. register_loop n env service s = Returned s' \<and>
              calls_since s s' =
                [RegisterService (domain (meta service)) (instance (meta service))
                   (handle service) (connection (meta service)) True]"
proof -
  from assms(1) obtain m where "n = Suc m" by (cases n) auto
  with assms(2) show ?thesis
    by (simp add: call_registerService_def split_beta calls_since_record_call)
qed

lemma unregister_loop_first:
  assumes "0 < n"
    and "fst (unregisterService env (domain (meta service)) (interface (meta service))
            (instance (meta service)) (runtime s))"
  shows "\<exists>s'. unregister_loop n env service s = Returned s' \<and>
              calls_since s s' =
                [UnregisterService (domain (meta service)) (interface (meta service))
                   (instance (meta service)) True]"
proof -
  from assms(1) obtain m where "n = Suc m" by (cases n) auto
  with assms(2) show ?thesis
    by (simp add: call_unregisterService_def split_beta calls_since_record_call)
qed

lemma wait_loop_first:
  assumes "0 < n"
    and "fst (isAvailable env proxy (runtime s)) = to_be_available"
  shows "\<exists>s'. wait_loop n env proxy to_be_available s = Returned s' \<and>
              calls_since s s' = [IsAvailable proxy to_be_available]"
proof -
  from assms(1) obtain m where "n = Suc m" by (cases n) auto
  with assms(2) show ?thesis
    by (auto simp: call_isAvailable_def split_beta calls_since_record_call)
qed

text \<open>
  C10. Each of the three loops, entered with a runtime that answers its first attempt
  with success (the registration or unregistration is accepted, the proxy reports the
  value waited for), ends after that one call and no sleep. So \<open>register_service\<close>,
  \<open>unregister_service\<close> and \<open>wait_service\<close> then return having made one attempt and
  no sleep, their only other calls being those before the loop: \<open>Runtime::get()\<close> and,
  in \<open>wait_service\<close>, the \<open>buildProxy\<close> that makes the proxy. And in every run of the
  three functions the first attempt comes before any sleep.
\<close>

theorem no_initial_delay:
  assumes "0 < n"
  shows
   "(fst (registerService env (domain (meta service)) (instance (meta service))
            (handle service) (connection (meta service)) (Runtime_get env (runtime s))) \<longrightarrow>
       (\<exists>s'. register_service env n service s = Returned s' \<and>
             calls_since s s' =
               [RuntimeGet,
                RegisterService (domain (meta service)) (instance (meta service))
                  (handle service) (connection (meta service)) True])) \<and>
    (fst (unregisterService env (domain (meta service)) (interface (meta service))
            (instance (meta service)) (Runtime_get env (runtime s))) \<longrightarrow>
       (\<exists>s'. unregister_service env n service s = Returned s' \<and>
             calls_since s s' =
               [RuntimeGet,
                UnregisterService (domain (meta service)) (interface (meta service))
                  (instance (meta service)) True])) \<and>
    (fst (isAvailable env (proxy_of service) (probe_built env service (runtime s)))
       = to_be_available \<longrightarrow>
       (\<exists>s'. wait_service env n service to_be_available s = Returned s' \<and>
             calls_since s s' =
               [RuntimeGet,
                BuildProxy (domain (meta service)) (instance (meta service))
                  (connection (meta service)),
                IsAvailable (proxy_of service) to_be_available])) \<and>
    (\<exists>ok evs. calls_since s (state_of (register_service env n service s)) =
                RuntimeGet #
                RegisterService (domain (meta service)) (instance (meta service))
                  (handle service) (connection (meta service)) ok # evs) \<and>
    (\<exists>ok evs. calls_since s (state_of (unregister_service env n service s)) =
                RuntimeGet #
                UnregisterService (domain (meta service)) (interface (meta service))
                  (instance (meta service)) ok # evs) \<and>
    (\<exists>a evs. calls_since s (state_of (wait_service env n service to_be_available s)) =
               RuntimeGet #
               BuildProxy (domain (meta service)) (instance (meta service))
                 (connection (meta service)) #
               IsAvailable (proxy_of service) a # evs) \<and>
    (fst (registerService env (domain (meta service)) (instance (meta service))
            (handle service) (connection (meta service)) (runtime s)) \<longrightarrow>
       (\<exists>s'. register_loop n env service s = Returned s' \<and>
             calls_since s s' =
               [RegisterService (domain (meta service)) (instance (meta service))
                  (handle service) (connection (meta service)) True])) \<and>
    (fst (unregisterService env (domain (meta service)) (interface (meta service))
            (instance (meta service)) (runtime s)) \<longrightarrow>
       (\<exists>s'. unregister_loop n env service s = Returned s' \<and>
             calls_since s s' =
               [UnregisterService (domain (meta service)) (interface (meta service))
                  (instance (meta service)) True])) \<and>
    (fst (isAvailable env proxy (runtime s)) = to_be_available \<longrightarrow>
       (\<exists>s'. wait_loop n env proxy to_be_available s = Returned s' \<and>
             calls_since s s' = [IsAvailable proxy to_be_available]))"
proof (intro conjI impI)
  assume "fst (registerService env (domain (meta service)) (instance (meta service))
            (handle service) (connection (meta service)) (runtime s))"
  with assms show "\<exists>s'. register_loop n env service s = Returned s' \<and>
             calls_since s s' =
               [RegisterService (domain (meta service)) (instance (meta service))
                  (handle service) (connection (meta service)) True]"
    by (rule register_loop_first)
next
  assume "fst (unregisterService env (domain (meta service)) (interface (meta service))
            (instance (meta service)) (runtime s))"
  with assms show "\<exists>s'. unregister_loop n env service s = Returned s' \<and>
             calls_since s s' =
               [UnregisterService (domain (meta service)) (interface (meta service))
                  (instance (meta service)) True]"
    by (rule unregister_loop_first)
next
  assume "fst (isAvailable env proxy (runtime s)) = to_be_available"
  with assms show "\<exists>s'. wait_loop n env proxy to_be_available s = Returned s' \<and>
             calls_since s s' = [IsAvailable proxy to_be_available]"
    by (rule wait_loop_first)
next
  assume ok: "fst (registerService env (domain (meta service)) (instance (meta service))
            (handle service) (connection (meta service)) (Runtime_get env (runtime s)))"
  then have ok': "fst (register_op env service (Runtime_get env (runtime s)))"
    by (simp add: register_op_def)
  show "\<exists>s'. register_service env n service s = Returned s' \<and>
             calls_since s s' =
               [RuntimeGet,
                RegisterService (domain (meta service)) (instance (meta service))
                  (handle service) (connection (meta service)) True]"
  proof (cases rule: register_service_cases[where n = n and env = env and service = service and s = s])
    case (returned K s')
    have "K = 0" using returned(2) ok' by (rule first_attempt_succeeds)
    with returned(3,4) show ?thesis
      by (auto simp: extends_def retries_0 Registered_def intro!: calls_since_append)
  next
    case (blocked s')
    from first_attempt_not_failing[OF blocked(1) assms] ok' show ?thesis by simp
  qed
next
  assume ok: "fst (unregisterService env (domain (meta service)) (interface (meta service))
            (instance (meta service)) (Runtime_get env (runtime s)))"
  then have ok': "fst (unregister_op env service (Runtime_get env (runtime s)))"
    by (simp add: unregister_op_def)
  show "\<exists>s'. unregister_service env n service s = Returned s' \<and>
             calls_since s s' =
               [RuntimeGet,
                UnregisterService (domain (meta service)) (interface (meta service))
                  (instance (meta service)) True]"
  proof (cases rule: unregister_service_cases[where n = n and env = env and service = service and s = s])
    case (returned K s')
    have "K = 0" using returned(2) ok' by (rule first_attempt_succeeds)
    with returned(3,4) show ?thesis
      by (auto simp: extends_def retries_0 Unregistered_def intro!: calls_since_append)
  next
    case (blocked s')
    from first_attempt_not_failing[OF blocked(1) assms] ok' show ?thesis by simp
  qed
next
  assume ok: "fst (isAvailable env (proxy_of service) (probe_built env service (runtime s)))
       = to_be_available"
  then have ok': "fst (poll env (proxy_of service) to_be_available
                        (probe_built env service (runtime s)))"
    by (simp add: poll_def split_beta)
  show "\<exists>s'. wait_service env n service to_be_available s = Returned s' \<and>
             calls_since s s' =
               [RuntimeGet,
                BuildProxy (domain (meta service)) (instance (meta service))
                  (connection (meta service)),
                IsAvailable (proxy_of service) to_be_available]"
  proof (cases rule: wait_service_cases[where n = n and env = env and service = service
         and s = s and tba = to_be_available])
    case (returned J s')
    have "J = 0" using returned(2) ok' by (rule first_attempt_succeeds)
    with returned(3,4) show ?thesis
      by (auto simp: extends_def retries_0 Built_def Polled_def intro!: calls_since_append)
  next
    case (blocked s')
    from first_attempt_not_failing[OF blocked(1) assms] ok' show ?thesis by simp
  qed
next
  obtain evs where evs:
    "trace (state_of (register_service env n service s))
       = trace s @ map (\<lambda>e. Call e (has_value (running_service s))) (RuntimeGet # evs)"
    "list_all (routed service) evs"
    "0 < n \<longrightarrow> (\<exists>ok rest. evs = Registered service ok # rest)"
    by (rule register_service_trace[where env = env and n = n and service = service and s = s])
  from evs(3) assms calls_since_append[OF evs(1)]
  show "\<exists>ok evs. calls_since s (state_of (register_service env n service s)) =
                RuntimeGet #
                RegisterService (domain (meta service)) (instance (meta service))
                  (handle service) (connection (meta service)) ok # evs"
    by (auto simp: Registered_def)
next
  obtain evs where evs:
    "trace (state_of (unregister_service env n service s))
       = trace s @ map (\<lambda>e. Call e (has_value (running_service s))) (RuntimeGet # evs)"
    "list_all (routed service) evs"
    "0 < n \<longrightarrow> (\<exists>ok rest. evs = Unregistered service ok # rest)"
    by (rule unregister_service_trace[where env = env and n = n and service = service and s = s])
  from evs(3) assms calls_since_append[OF evs(1)]
  show "\<exists>ok evs. calls_since s (state_of (unregister_service env n service s)) =
                RuntimeGet #
                UnregisterService (domain (meta service)) (interface (meta service))
                  (instance (meta service)) ok # evs"
    by (auto simp: Unregistered_def)
next
  obtain evs where evs:
    "trace (state_of (wait_service env n service to_be_available s))
       = trace s @ map (\<lambda>e. Call e (has_value (running_service s)))
           (RuntimeGet # Built service # evs)"
    "list_all (routed service) evs"
    "0 < n \<longrightarrow> (\<exists>ok rest. evs = Polled (proxy_of service) to_be_available ok # rest)"
    by (rule wait_service_trace[where env = env and n = n and service = service and s = s and tba = to_be_available])
  from evs(3) assms calls_since_append[OF evs(1)]
  show "\<exists>a evs. calls_since s (state_of (wait_service env n service to_be_available s)) =
               RuntimeGet #
               BuildProxy (domain (meta service)) (instance (meta service))
                 (connection (meta service)) #
               IsAvailable (proxy_of service) a # evs"
    by (auto simp: Built_def Polled_def)
qed

theorem no_initial_delay_witness:
  "(0::nat) < 1 \<and>
   fst (registerService scripted (domain (meta service0)) (instance (meta service0))
          (handle service0) (connection (meta service0))
          (Runtime_get scripted (runtime (stopped0 script_prompt)))) \<and>
   calls_since (stopped0 script_prompt)
       (state_of (register_service scripted 1 service0 (stopped0 script_prompt)))
     = [RuntimeGet,
        RegisterService (domain (meta service0)) (instance (meta service0))
          (handle service0) (connection (meta service0)) True] \<and>
   fst (unregisterService scripted (domain (meta service0)) (interface (meta service0))
          (instance (meta service0)) (Runtime_get scripted (runtime (stopped0 script_prompt)))) \<and>
   calls_since (stopped0 script_prompt)
       (state_of (unregister_service scripted 1 service0 (stopped0 script_prompt)))
     = [RuntimeGet,
        UnregisterService (domain (meta service0)) (interface (meta service0))
          (instance (meta service0)) True] \<and>
   fst (isAvailable scripted (proxy_of service0)
          (probe_built scripted service0 (runtime (stopped0 script_prompt)))) = True \<and>
   calls_since (stopped0 script_prompt)
       (state_of (wait_service scripted 1 service0 True (stopped0 script_prompt)))
     = [RuntimeGet,
        BuildProxy (domain (meta service0)) (instance (meta service0))
          (connection (meta service0)),
        IsAvailable (proxy_of service0) True] \<and>
   fst (registerService scripted (domain (meta service0)) (instance (meta service0))
          (handle service0) (connection (meta service0)) (runtime (stopped0 script_prompt))) \<and>
   calls_since (stopped0 script_prompt)
       (state_of (register_loop 1 scripted service0 (stopped0 script_prompt)))
     = [RegisterService (domain (meta service0)) (instance (meta service0))
          (handle service0) (connection (meta service0)) True] \<and>
   fst (unregisterService scripted (domain (meta service0)) (interface (meta service0))
          (instance (meta service0)) (runtime (stopped0 script_prompt))) \<and>
   calls_since (stopped0 script_prompt)
       (state_of (unregister_loop 1 scripted service0 (stopped0 script_prompt)))
     = [UnregisterService (domain (meta service0)) (interface (meta service0))
          (instance (meta service0)) True] \<and>
   fst (isAvailable scripted (proxy_of service0) (runtime (stopped0 script_prompt))) = True \<and>
   calls_since (stopped0 script_prompt)
       (state_of (wait_loop 1 scripted (proxy_of service0) True (stopped0 script_prompt)))
     = [IsAvailable (proxy_of service0) True]"
proof -
  have n: "(0::nat) < 1" by simp
  have l1: "fst (registerService scripted (domain (meta service0)) (instance (meta service0))
          (handle service0) (connection (meta service0)) (runtime (stopped0 script_prompt)))"
    by code_simp
  have l2: "fst (unregisterService scripted (domain (meta service0)) (interface (meta service0))
          (instance (meta service0)) (runtime (stopped0 script_prompt)))"
    by code_simp
  have l3: "fst (isAvailable scripted (proxy_of service0) (runtime (stopped0 script_prompt)))
              = True"
    by code_simp
  have h1: "fst (registerService scripted (domain (meta service0)) (instance (meta service0))
          (handle service0) (connection (meta service0))
          (Runtime_get scripted (runtime (stopped0 script_prompt))))"
    by code_simp
  have h2: "fst (unregisterService scripted (domain (meta service0)) (interface (meta service0))
          (instance (meta service0)) (Runtime_get scripted (runtime (stopped0 script_prompt))))"
    by code_simp
  have h3: "fst (isAvailable scripted (proxy_of service0)
          (probe_built scripted service0 (runtime (stopped0 script_prompt)))) = True"
    by code_simp
  note T = no_initial_delay[OF n, where env = scripted and service = service0
      and s = "stopped0 script_prompt" and to_be_available = True
      and proxy = "proxy_of service0"]
  note L = conjunct2[OF conjunct2[OF conjunct2[OF conjunct2[OF conjunct2[OF conjunct2[OF T]]]]]]
  from mp[OF conjunct1[OF L] l1] have 4:
    "calls_since (stopped0 script_prompt)
       (state_of (register_loop 1 scripted service0 (stopped0 script_prompt)))
     = [RegisterService (domain (meta service0)) (instance (meta service0))
          (handle service0) (connection (meta service0)) True]"
    by auto
  from mp[OF conjunct1[OF conjunct2[OF L]] l2] have 5:
    "calls_since (stopped0 script_prompt)
       (state_of (unregister_loop 1 scripted service0 (stopped0 script_prompt)))
     = [UnregisterService (domain (meta service0)) (interface (meta service0))
          (instance (meta service0)) True]"
    by auto
  from mp[OF conjunct2[OF conjunct2[OF L]] l3] have 6:
    "calls_since (stopped0 script_prompt)
       (state_of (wait_loop 1 scripted (proxy_of service0) True (stopped0 script_prompt)))
     = [IsAvailable (proxy_of service0) True]"
    by auto
  from mp[OF conjunct1[OF T] h1] have 1:
    "calls_since (stopped0 script_prompt)
       (state_of (register_service scripted 1 service0 (stopped0 script_prompt)))
     = [RuntimeGet,
        RegisterService (domain (meta service0)) (instance (meta service0))
          (handle service0) (connection (meta service0)) True]"
    by auto
  from mp[OF conjunct1[OF conjunct2[OF T]] h2] have 2:
    "calls_since (stopped0 script_prompt)
       (state_of (unregister_service scripted 1 service0 (stopped0 script_prompt)))
     = [RuntimeGet,
        UnregisterService (domain (meta service0)) (interface (meta service0))
          (instance (meta service0)) True]"
    by auto
  from mp[OF conjunct1[OF conjunct2[OF conjunct2[OF T]]] h3] have 3:
    "calls_since (stopped0 script_prompt)
       (state_of (wait_service scripted 1 service0 True (stopped0 script_prompt)))
     = [RuntimeGet,
        BuildProxy (domain (meta service0)) (instance (meta service0))
          (connection (meta service0)),
        IsAvailable (proxy_of service0) True]"
    by auto
  show ?thesis
    by (intro conjI) (fact n h1 1 h2 2 h3 3 l1 4 l2 5 l3 6)+
qed

end
